theory Spec2Isabelle
  imports Main "HOL-Library.Word" "HOL-Library.Signed_Division"
begin

section \<open>The operating system as seen from \<open>main.cc\<close>\<close>

text \<open>
  \<open>main.cc\<close> talks to the world through POSIX calls (\<open>open\<close>, \<open>fstat\<close>, \<open>read\<close>,
  \<open>write\<close>, \<open>close\<close>, \<open>fsync\<close>, \<open>remove\<close>, \<open>rename\<close>), through \<open>errno\<close>, and
  through the two JavaScript callbacks. None of these is code of the repository, so the
  operating system is an input of the model: an oracle that gives, for the k-th call the
  program makes, the response of the kernel. The program threads a state holding the number
  of calls made so far, the current \<open>errno\<close>, and the trace of everything observable it did
  (every system call with its return value, every exception thrown into JavaScript, every
  callback invocation).
\<close>

type_synonym byte = "8 word"

record stat =
  st_mode :: nat
  st_size :: int
  st_dev :: nat

text \<open>
  What the system answers to one call: whether the call succeeds, the \<open>errno\<close> it sets when
  it does not, the number it yields on success (the new descriptor for \<open>open\<close>, the number
  of bytes accepted for \<open>write\<close>), the bytes a \<open>read\<close> would deliver, the structure an
  \<open>fstat\<close> would fill, and the value a call that succeeds leaves in \<open>errno\<close> when it
  changes it. The last happens: \<open>remove\<close> of glibc on an empty directory returns 0 and
  leaves \<open>EISDIR\<close>, the error of the \<open>unlink\<close> it tried first.
\<close>

record response =
  r_ok :: bool
  r_errno :: nat
  r_val :: nat
  r_data :: "byte list"
  r_stat :: stat
  r_touch :: "nat option"

type_synonym os = "nat \<Rightarrow> response"

datatype oflag = O_RDONLY | O_WRONLY | O_CREAT | O_TRUNC | O_BINARY

datatype syscall =
    SysOpen string "oflag list" "nat option"
  | SysFstat int
  | SysRead int nat
  | SysWrite int "byte list"
  | SysClose int
  | SysFsync int
  | SysRemove string
  | SysRename string string

text \<open>A JavaScript function is known by an identifier; \<open>strerror e\<close> stands for the text
  the C library gives for the error number \<open>e\<close>.\<close>

type_synonym func = nat

datatype errtext = strerror nat

text \<open>
  Observable events. \<open>Progress\<close> and \<open>Complete\<close> are invocations of the progress and of
  the result callback; the handle they are called through is a \<open>Local<Function>\<close>, which
  is empty (\<open>None\<close>) until it is assigned. The numbers of a progress call are the
  \<open>ssize_t\<close> values before their conversion to \<open>double\<close>.
\<close>

datatype event =
    Sys syscall int
  | Throw string
  | Progress "func option" int int
  | Complete "func option" "errtext option" bool

record state =
  clock :: nat
  errno :: nat
  trace :: "event list"

text \<open>
  The return value of a call, given the kernel's response: \<open>-1\<close> on failure; on success
  the descriptor, the number of bytes (never more than was asked for), or \<open>0\<close>.
\<close>

fun retval :: "syscall \<Rightarrow> response \<Rightarrow> int" where
  "retval (SysOpen p fl m) r = (if r_ok r then int (r_val r) else - 1)"
| "retval (SysRead fd n) r = (if r_ok r then int (min (length (r_data r)) n) else - 1)"
| "retval (SysWrite fd d) r = (if r_ok r then int (min (r_val r) (length d)) else - 1)"
| "retval c r = (if r_ok r then 0 else - 1)"

text \<open>
  One system call: the oracle is asked at the current clock, the call and its return value
  are appended to the trace, and \<open>errno\<close> becomes the error of the call when it fails. A
  call that succeeds leaves \<open>errno\<close> as it was or changes it, as the response says.
\<close>

definition sys :: "os \<Rightarrow> syscall \<Rightarrow> state \<Rightarrow> int \<times> response \<times> state" where
  "sys os c s =
     (let r = os (clock s); rv = retval c r
      in (rv, r, s\<lparr>clock := Suc (clock s),
                   errno := (if rv = - 1 then r_errno r
                             else case r_touch r of None \<Rightarrow> errno s | Some e \<Rightarrow> e),
                   trace := trace s @ [Sys c rv]\<rparr>))"

definition sys_open :: "os \<Rightarrow> string \<Rightarrow> oflag list \<Rightarrow> nat option \<Rightarrow> state \<Rightarrow> int \<times> state" where
  "sys_open os p fl m s = (case sys os (SysOpen p fl m) s of (rv, r, s') \<Rightarrow> (rv, s'))"

definition sys_fstat :: "os \<Rightarrow> int \<Rightarrow> state \<Rightarrow> int \<times> stat \<times> state" where
  "sys_fstat os fd s = (case sys os (SysFstat fd) s of (rv, r, s') \<Rightarrow> (rv, r_stat r, s'))"

definition sys_read :: "os \<Rightarrow> int \<Rightarrow> nat \<Rightarrow> state \<Rightarrow> int \<times> byte list \<times> state" where
  "sys_read os fd n s =
     (case sys os (SysRead fd n) s of (rv, r, s') \<Rightarrow> (rv, take (nat rv) (r_data r), s'))"

definition sys_write :: "os \<Rightarrow> int \<Rightarrow> byte list \<Rightarrow> state \<Rightarrow> int \<times> state" where
  "sys_write os fd d s = (case sys os (SysWrite fd d) s of (rv, r, s') \<Rightarrow> (rv, s'))"

definition sys_close :: "os \<Rightarrow> int \<Rightarrow> state \<Rightarrow> state" where
  "sys_close os fd s = (case sys os (SysClose fd) s of (rv, r, s') \<Rightarrow> s')"

definition sys_fsync :: "os \<Rightarrow> int \<Rightarrow> state \<Rightarrow> state" where
  "sys_fsync os fd s = (case sys os (SysFsync fd) s of (rv, r, s') \<Rightarrow> s')"

definition sys_remove :: "os \<Rightarrow> string \<Rightarrow> state \<Rightarrow> state" where
  "sys_remove os p s = (case sys os (SysRemove p) s of (rv, r, s') \<Rightarrow> s')"

definition sys_rename :: "os \<Rightarrow> string \<Rightarrow> string \<Rightarrow> state \<Rightarrow> state" where
  "sys_rename os p q s = (case sys os (SysRename p q) s of (rv, r, s') \<Rightarrow> s')"

section \<open>Arguments\<close>

datatype jsval = JsString string | JsFunction func | JsOther

text \<open>\<open>args[i]\<close> of a \<open>FunctionCallbackInfo\<close> is \<open>undefined\<close> beyond \<open>args.Length()\<close>.\<close>

definition arg_at :: "jsval list \<Rightarrow> nat \<Rightarrow> jsval" where
  "arg_at incoming i = (if i < length incoming then incoming ! i else JsOther)"

fun IsString :: "jsval \<Rightarrow> bool" where
  "IsString (JsString x) = True"
| "IsString v = False"

fun IsFunction :: "jsval \<Rightarrow> bool" where
  "IsFunction (JsFunction f) = True"
| "IsFunction v = False"

text \<open>\<open>Local<Function>::Cast\<close> of a value that was checked to be a function.\<close>

fun Cast :: "jsval \<Rightarrow> func option" where
  "Cast (JsFunction f) = Some f"
| "Cast v = None"

text \<open>\<open>get\<close>: the UTF-8 bytes of a string value as a \<open>std::string\<close> built from a
  C string, which ends at the first NUL; the empty string for any other value.\<close>

fun get :: "jsval \<Rightarrow> string" where
  "get (JsString x) = takeWhile (\<lambda>c. c \<noteq> CHR 0x00) x"
| "get v = []"

definition ThrowError :: "string \<Rightarrow> state \<Rightarrow> state" where
  "ThrowError errorText s = s\<lparr>trace := trace s @ [Throw errorText]\<rparr>"

record Args =
  Source :: string
  Destination :: string
  ProgressCallback :: "func option"
  ResultCallback :: "func option"
  UpdateProgress :: bool

text \<open>
  The members before the constructor body runs: the strings are empty, the handles are
  empty, and \<open>UpdateProgress\<close> is a \<open>bool\<close> without initialiser, whose indeterminate
  value is the parameter \<open>junk\<close>.
\<close>

definition Args_members :: "bool \<Rightarrow> Args" where
  "Args_members junk =
     \<lparr>Source = [], Destination = [], ProgressCallback = None, ResultCallback = None,
      UpdateProgress = junk\<rparr>"

text \<open>
  The constructor \<open>Args::Args\<close>. Each failed check throws a \<open>TypeError\<close> into JavaScript
  and returns from the constructor, leaving the members as they were; the constructed
  object is handed to the caller in every case.
\<close>

definition Args_ctor :: "bool \<Rightarrow> jsval list \<Rightarrow> state \<Rightarrow> Args \<times> state" where
  "Args_ctor junk incoming s =
     (if length incoming < 3 then
        (Args_members junk, ThrowError ''Not enough arguments'' s)
      else if \<not> IsString (arg_at incoming 0) then
        (Args_members junk, ThrowError ''First argument is not a path'' s)
      else if \<not> IsString (arg_at incoming 1) then
        (Args_members junk, ThrowError ''Second argument is not a path'' s)
      else if \<not> IsFunction (arg_at incoming 2) then
        (Args_members junk, ThrowError ''Missing result callback'' s)
      else if length incoming > 3 \<and> \<not> IsFunction (arg_at incoming 3) then
        (Args_members junk, ThrowError ''Unknown arguments'' s)
      else
        (let a = (Args_members junk)\<lparr>UpdateProgress := (length incoming > 3)\<rparr>;
             a = a\<lparr>Source := get (arg_at incoming 0)\<rparr>;
             a = a\<lparr>Destination := get (arg_at incoming 1)\<rparr>
         in if UpdateProgress a then
              (a\<lparr>ProgressCallback := Cast (arg_at incoming 2),
                 ResultCallback := Cast (arg_at incoming 3)\<rparr>, s)
            else
              (a\<lparr>ResultCallback := Cast (arg_at incoming 2)\<rparr>, s)))"

section \<open>Callbacks\<close>

definition BUFFER_SIZE :: nat where
  "BUFFER_SIZE = 16384"

text \<open>The overload of \<open>SendProgressUpdate\<close> on \<open>Local<Value>\<close>, and the one on
  \<open>double\<close> that calls it.\<close>

definition SendProgressUpdate_values :: "Args \<Rightarrow> int \<Rightarrow> int \<Rightarrow> state \<Rightarrow> state" where
  "SendProgressUpdate_values args completed total' s =
     (if UpdateProgress args
      then s\<lparr>trace := trace s @ [Progress (ProgressCallback args) completed total']\<rparr>
      else s)"

definition SendProgressUpdate :: "Args \<Rightarrow> int \<Rightarrow> int \<Rightarrow> state \<Rightarrow> state" where
  "SendProgressUpdate args completed total' s =
     (if UpdateProgress args then SendProgressUpdate_values args completed total' s else s)"

definition SendComplete :: "Args \<Rightarrow> state \<Rightarrow> state" where
  "SendComplete args s = s\<lparr>trace := trace s @ [Complete (ResultCallback args) None True]\<rparr>"

definition SendError :: "Args \<Rightarrow> errtext \<Rightarrow> state \<Rightarrow> state" where
  "SendError args errorText s =
     s\<lparr>trace := trace s @ [Complete (ResultCallback args) (Some errorText) False]\<rparr>"

section \<open>The copy engine\<close>

text \<open>
  \<open>doWrite\<close> calls itself on the unwritten tail after a short write. Nothing bounds the
  number of calls, so it is a partial function: \<open>None\<close> is the run that never returns.
\<close>

partial_function (option) doWrite :: "os \<Rightarrow> int \<Rightarrow> byte list \<Rightarrow> state \<Rightarrow> (int \<times> state) option" where
  "doWrite os fd data s =
     (case sys_write os fd data s of (written, s1) \<Rightarrow>
        if written = - 1 then Some (- 1, s1)
        else if nat written < length data then doWrite os fd (drop (nat written) data) s1
        else Some (written, s1))"

text \<open>How the \<open>while\<close> loop of \<open>Copy\<close> is left: by a read of zero bytes, by a failed
  read (\<open>bytes_read == -1\<close> after the loop), or by a failed write (the \<open>goto\<close> inside).\<close>

datatype loop_exit = EndOfInput | ReadError | WriteError

partial_function (option) copy_loop ::
  "os \<Rightarrow> Args \<Rightarrow> int \<Rightarrow> int \<Rightarrow> int \<Rightarrow> int \<Rightarrow> int \<Rightarrow> int \<Rightarrow> state \<Rightarrow> (loop_exit \<times> state) option"
where
  "copy_loop os args fd_in fd_out inputSize bytesPerUpdate progress sinceLastUpdate s =
     (case sys_read os fd_in BUFFER_SIZE s of (bytes_read, buffer, s1) \<Rightarrow>
        if bytes_read > 0 then
          Option.bind (doWrite os fd_out buffer s1) (\<lambda>(written, s2).
            if written = - 1 then Some (WriteError, s2)
            else if sinceLastUpdate + bytes_read > bytesPerUpdate then
              copy_loop os args fd_in fd_out inputSize bytesPerUpdate (progress + bytes_read) 0
                (SendProgressUpdate args (progress + bytes_read) inputSize s2)
            else
              copy_loop os args fd_in fd_out inputSize bytesPerUpdate (progress + bytes_read)
                (sinceLastUpdate + bytes_read) s2)
        else if bytes_read = - 1 then Some (ReadError, s1)
        else Some (EndOfInput, s1))"

definition copyByFdError :: "os \<Rightarrow> Args \<Rightarrow> int \<Rightarrow> int \<Rightarrow> state \<Rightarrow> state" where
  "copyByFdError os args fd_in fd_out s =
     (let s = sys_close os fd_in s;
          s = sys_close os fd_out s;
          s = sys_remove os (Destination args) s
      in SendError args (strerror (errno s)) s)"

text \<open>\<open>Copy(int fd_in, int fd_out, ssize_t inputSize, const Args&, bool removeWhenDone)\<close>.
  \<open>ssize_t\<close> is modelled by \<open>int\<close>: the counters grow by at most 16384 per read, so
  that the overflow of a 64-bit \<open>ssize_t\<close>, undefined in C++, is out of reach. The
  division truncates towards zero, as in C++.\<close>

definition Copy_fd :: "os \<Rightarrow> int \<Rightarrow> int \<Rightarrow> int \<Rightarrow> Args \<Rightarrow> bool \<Rightarrow> state \<Rightarrow> state option" where
  "Copy_fd os fd_in fd_out inputSize args removeWhenDone s =
     Option.bind (copy_loop os args fd_in fd_out inputSize (inputSize sdiv 100) 0 0 s)
       (\<lambda>(ex, s).
          if ex \<noteq> EndOfInput then Some (copyByFdError os args fd_in fd_out s)
          else
            (let s = SendProgressUpdate args inputSize inputSize s;
                 s = sys_close os fd_in s;
                 s = sys_fsync os fd_out s;
                 s = sys_close os fd_out s;
                 s = (if removeWhenDone then sys_remove os (Source args) s else s)
             in Some (SendComplete args s)))"

definition copyByPathError :: "os \<Rightarrow> Args \<Rightarrow> state \<Rightarrow> state" where
  "copyByPathError os args s =
     (let s = sys_remove os (Destination args) s
      in SendError args (strerror (errno s)) s)"

text \<open>\<open>Copy(const FunctionCallbackInfo<Value>&)\<close>, the function exported as \<open>copy\<close>.\<close>

definition Copy :: "os \<Rightarrow> bool \<Rightarrow> jsval list \<Rightarrow> state \<Rightarrow> state option" where
  "Copy os junk incoming s =
     (case Args_ctor junk incoming s of (args, s) \<Rightarrow>
      case sys_open os (Source args) [O_RDONLY, O_BINARY] None s of (in_fd, s) \<Rightarrow>
        if in_fd < 0 then Some (copyByPathError os args s)
        else
          case sys_fstat os in_fd s of (rv, st_buf, s) \<Rightarrow>
            if rv \<noteq> 0 then Some (copyByPathError os args (sys_close os in_fd s))
            else
              case sys_open os (Destination args) [O_WRONLY, O_CREAT, O_TRUNC, O_BINARY]
                     (Some (st_mode st_buf)) s of (out_fd, s) \<Rightarrow>
                if out_fd < 0 then Some (copyByPathError os args (sys_close os in_fd s))
                else Copy_fd os in_fd out_fd (st_size st_buf) args False s)"

definition moveError :: "os \<Rightarrow> Args \<Rightarrow> state \<Rightarrow> state" where
  "moveError os args s =
     (let s = sys_remove os (Destination args) s
      in SendError args (strerror (errno s)) s)"

text \<open>\<open>Move\<close>, the function exported as \<open>move\<close>.\<close>

definition Move :: "os \<Rightarrow> bool \<Rightarrow> jsval list \<Rightarrow> state \<Rightarrow> state option" where
  "Move os junk incoming s =
     (case Args_ctor junk incoming s of (args, s) \<Rightarrow>
      case sys_open os (Source args) [O_RDONLY, O_BINARY] None s of (in_fd, s) \<Rightarrow>
        if in_fd < 0 then Some (moveError os args s)
        else
          case sys_fstat os in_fd s of (rv, in_stats, s) \<Rightarrow>
            if rv \<noteq> 0 then Some (moveError os args (sys_close os in_fd s))
            else
              case sys_open os (Destination args) [O_WRONLY, O_CREAT, O_TRUNC, O_BINARY]
                     (Some (st_mode in_stats)) s of (out_fd, s) \<Rightarrow>
                if out_fd < 0 then Some (moveError os args (sys_close os in_fd s))
                else
                  case sys_fstat os out_fd s of (rv, out_stats, s) \<Rightarrow>
                    if rv \<noteq> 0 then
                      Some (moveError os args (sys_close os out_fd (sys_close os in_fd s)))
                    else
                      (let inputSize = st_size in_stats in
                       if st_dev in_stats = st_dev out_stats then
                         (let s = sys_close os in_fd s;
                              s = sys_close os out_fd s;
                              s = sys_remove os (Destination args) s;
                              s = sys_rename os (Source args) (Destination args) s;
                              s = SendProgressUpdate args inputSize inputSize s
                          in Some (SendComplete args s))
                       else Copy_fd os in_fd out_fd inputSize args True s))"


declare doWrite.simps [code] copy_loop.simps [code]

section \<open>Reading a trace\<close>

text \<open>What a single event contributes to: the progress notifications \<open>(done, total)\<close>,
  the completions, the sizes of the chunks read, the descriptors opened and closed, the
  paths \<open>remove\<close> was called on (with its return value), the bytes a descriptor accepted,
  and whether the event is a read or a write that returned \<open>-1\<close>.\<close>

fun progress_ev :: "event \<Rightarrow> (int \<times> int) list" where
  "progress_ev (Progress cb d t) = [(d, t)]"
| "progress_ev e = []"

fun complete_ev :: "event \<Rightarrow> (func option \<times> errtext option \<times> bool) list" where
  "complete_ev (Complete cb t b) = [(cb, t, b)]"
| "complete_ev e = []"

fun read_ev :: "event \<Rightarrow> int list" where
  "read_ev (Sys (SysRead fd n) rv) = (if 0 < rv then [rv] else [])"
| "read_ev e = []"

fun open_ev :: "event \<Rightarrow> int list" where
  "open_ev (Sys (SysOpen p fl m) rv) = (if 0 \<le> rv then [rv] else [])"
| "open_ev e = []"

fun close_ev :: "event \<Rightarrow> int list" where
  "close_ev (Sys (SysClose fd) rv) = [fd]"
| "close_ev e = []"

fun remove_ev :: "event \<Rightarrow> (string \<times> int) list" where
  "remove_ev (Sys (SysRemove p) rv) = [(p, rv)]"
| "remove_ev e = []"

fun accept_ev :: "int \<Rightarrow> event \<Rightarrow> byte list" where
  "accept_ev fd (Sys (SysWrite fd' d) rv) = (if fd' = fd then take (nat rv) d else [])"
| "accept_ev fd e = []"

fun failed_io_ev :: "event \<Rightarrow> bool" where
  "failed_io_ev (Sys (SysRead fd n) rv) = (rv = - 1)"
| "failed_io_ev (Sys (SysWrite fd d) rv) = (rv = - 1)"
| "failed_io_ev e = False"

fun write_ev :: "int \<Rightarrow> event \<Rightarrow> bool" where
  "write_ev fd (Sys (SysWrite fd' d) rv) = (fd' = fd)"
| "write_ev fd e = False"

definition progress_of :: "event list \<Rightarrow> (int \<times> int) list" where
  "progress_of es = concat (map progress_ev es)"

definition completions :: "event list \<Rightarrow> (func option \<times> errtext option \<times> bool) list" where
  "completions es = concat (map complete_ev es)"

definition reads_of :: "event list \<Rightarrow> int list" where
  "reads_of es = concat (map read_ev es)"

definition opened :: "event list \<Rightarrow> int list" where
  "opened es = concat (map open_ev es)"

definition closed :: "event list \<Rightarrow> int list" where
  "closed es = concat (map close_ev es)"

definition removes :: "event list \<Rightarrow> (string \<times> int) list" where
  "removes es = concat (map remove_ev es)"

definition accepted :: "int \<Rightarrow> event list \<Rightarrow> byte list" where
  "accepted fd es = concat (map (accept_ev fd) es)"

definition failed_io :: "event list \<Rightarrow> bool" where
  "failed_io es = list_ex failed_io_ev es"

fun failed_write_ev :: "event \<Rightarrow> bool" where
  "failed_write_ev (Sys (SysWrite fd d) rv) = (rv = - 1)"
| "failed_write_ev e = False"

text \<open>The chunks the loop accounted for: every chunk read, except the last one when
  writing it failed.\<close>

definition chunks :: "event list \<Rightarrow> int list" where
  "chunks es = (if list_ex failed_write_ev es then butlast (reads_of es) else reads_of es)"

text \<open>
  The throttling rule in the words of the specification: walking the chunks, a
  notification (carrying the bytes transferred so far) is due when the bytes accumulated
  since the last notification exceed the threshold, and the accumulation starts again.
\<close>

fun spec_notifications :: "int \<Rightarrow> int \<Rightarrow> int \<Rightarrow> int list \<Rightarrow> int list" where
  "spec_notifications threshold transferred since [] = []"
| "spec_notifications threshold transferred since (n # ns) =
     (if since + n > threshold
      then (transferred + n) # spec_notifications threshold (transferred + n) 0 ns
      else spec_notifications threshold (transferred + n) (since + n) ns)"

text \<open>The calls that pass every check of \<open>Args::Args\<close>.\<close>

definition well_formed :: "jsval list \<Rightarrow> bool" where
  "well_formed incoming =
     (3 \<le> length incoming \<and> IsString (arg_at incoming 0) \<and> IsString (arg_at incoming 1)
      \<and> IsFunction (arg_at incoming 2)
      \<and> (length incoming \<le> 3 \<or> IsFunction (arg_at incoming 3)))"

section \<open>Concrete operating systems\<close>

text \<open>Responses, and the oracle that answers the first calls from a list and every later
  call with a default.\<close>

definition ans :: "bool \<Rightarrow> nat \<Rightarrow> nat \<Rightarrow> byte list \<Rightarrow> stat \<Rightarrow> response" where
  "ans k e v d b =
     \<lparr>r_ok = k, r_errno = e, r_val = v, r_data = d, r_stat = b, r_touch = None\<rparr>"

definition no_stat :: stat where
  "no_stat = \<lparr>st_mode = 0, st_size = 0, st_dev = 0\<rparr>"

definition succeed :: response where
  "succeed = ans True 0 0 [] no_stat"

definition succeed_leaving :: "nat \<Rightarrow> response" where
  "succeed_leaving e = (ans True 0 0 [] no_stat)\<lparr>r_touch := Some e\<rparr>"

definition fail_with :: "nat \<Rightarrow> response" where
  "fail_with e = ans False e 0 [] no_stat"

definition yield :: "nat \<Rightarrow> response" where
  "yield v = ans True 0 v [] no_stat"

definition deliver :: "byte list \<Rightarrow> response" where
  "deliver d = ans True 0 0 d no_stat"

definition stat_is :: "nat \<Rightarrow> int \<Rightarrow> nat \<Rightarrow> response" where
  "stat_is m z d = ans True 0 0 [] \<lparr>st_mode = m, st_size = z, st_dev = d\<rparr>"

definition script :: "response list \<Rightarrow> response \<Rightarrow> os" where
  "script rs d k = (if k < length rs then rs ! k else d)"

definition start :: state where
  "start = \<lparr>clock = 0, errno = 0, trace = []\<rparr>"


text \<open>A descriptor that accepts no byte, whatever it is asked to write; and one that
  accepts at most two bytes per call.\<close>

definition zero_writes :: os where
  "zero_writes = script [] (yield 0)"

definition two_at_a_time :: os where
  "two_at_a_time = script [] (yield 2)"

text \<open>Calls from JavaScript: with a result callback only, with a progress callback as
  well, and with the two paths and nothing else.\<close>

definition plain_call :: "jsval list" where
  "plain_call = [JsString ''a'', JsString ''b'', JsFunction 7]"

definition progress_call :: "jsval list" where
  "progress_call = [JsString ''a'', JsString ''b'', JsFunction 6, JsFunction 7]"

definition short_call :: "jsval list" where
  "short_call = [JsString ''a'', JsString ''b'']"

text \<open>Source and destination on device 1; everything succeeds up to the \<open>rename\<close>, which
  fails with \<open>EACCES\<close> (13), as it does when the directory of the source is read-only.\<close>

definition rename_fails :: os where
  "rename_fails =
     script [yield 3, stat_is 420 5 1, yield 4, stat_is 420 0 1,
             succeed, succeed, succeed, fail_with 13] succeed"

text \<open>The source does not exist (\<open>ENOENT\<close>, 2); a file exists at the destination, so
  that \<open>remove\<close> succeeds on it.\<close>

definition source_missing :: os where
  "source_missing = script [fail_with 2, succeed] succeed"

text \<open>No file has the empty path: every call on it fails with \<open>ENOENT\<close>.\<close>

definition nothing_there :: os where
  "nothing_there = script [] (fail_with 2)"

text \<open>The return value of the k-th call when it is a \<open>close\<close>, \<open>fsync\<close>, \<open>remove\<close>,
  \<open>rename\<close> or \<open>fstat\<close>; \<open>errno\<close> after the k-th call, when it was \<open>e\<close> before; and
  \<open>errno\<close> after \<open>n\<close> calls from the k-th on: each call that fails overwrites it, and so
  does a call that succeeds and changes it.\<close>

definition status :: "os \<Rightarrow> nat \<Rightarrow> int" where
  "status os k = (if r_ok (os k) then 0 else - 1)"

definition errno_next :: "os \<Rightarrow> nat \<Rightarrow> nat \<Rightarrow> nat" where
  "errno_next os k e =
     (if r_ok (os k) then (case r_touch (os k) of None \<Rightarrow> e | Some e' \<Rightarrow> e')
      else r_errno (os k))"

fun errno_after :: "os \<Rightarrow> nat \<Rightarrow> nat \<Rightarrow> nat \<Rightarrow> nat" where
  "errno_after os k 0 e = e"
| "errno_after os k (Suc n) e = errno_after os (Suc k) n (errno_next os k e)"

text \<open>The events of \<open>Copy\<close> after its loop: on the path that ends in \<open>SendComplete\<close>,
  and on the path through \<open>copyByFdError\<close>.\<close>

definition success_tail :: "os \<Rightarrow> Args \<Rightarrow> int \<Rightarrow> int \<Rightarrow> int \<Rightarrow> bool \<Rightarrow> nat \<Rightarrow> event list" where
  "success_tail os args fi fo inputSize rm k =
     (if UpdateProgress args then [Progress (ProgressCallback args) inputSize inputSize] else [])
     @ [Sys (SysClose fi) (status os k), Sys (SysFsync fo) (status os (Suc k)),
        Sys (SysClose fo) (status os (Suc (Suc k)))]
     @ (if rm then [Sys (SysRemove (Source args)) (status os (Suc (Suc (Suc k))))] else [])
     @ [Complete (ResultCallback args) None True]"

definition failure_tail :: "os \<Rightarrow> Args \<Rightarrow> int \<Rightarrow> int \<Rightarrow> nat \<Rightarrow> nat \<Rightarrow> event list" where
  "failure_tail os args fi fo k e =
     [Sys (SysClose fi) (status os k), Sys (SysClose fo) (status os (Suc k)),
      Sys (SysRemove (Destination args)) (status os (Suc (Suc k))),
      Complete (ResultCallback args) (Some (strerror (errno_after os k 3 e))) False]"

text \<open>What the events \<open>evs\<close> of a finished run of the loop look like.\<close>

definition loop_events ::
  "os \<Rightarrow> Args \<Rightarrow> int \<Rightarrow> int \<Rightarrow> int \<Rightarrow> int \<Rightarrow> state \<Rightarrow> loop_exit \<Rightarrow> state \<Rightarrow> event list \<Rightarrow> bool"
where
  "loop_events os args inputSize threshold transferred since s ex s' evs \<longleftrightarrow>
     trace s' = trace s @ evs \<and> evs \<noteq> [] \<and> clock s < clock s'
     \<and> progress_of evs =
          (if UpdateProgress args
           then map (\<lambda>d. (d, inputSize))
                  (spec_notifications threshold transferred since (chunks evs))
           else [])
     \<and> set (progress_of evs) \<subseteq> {(d, t). t = inputSize}
     \<and> (ex = WriteError \<longrightarrow> reads_of evs \<noteq> [])
     \<and> failed_write_ev (last evs) = (ex = WriteError)
     \<and> completions evs = [] \<and> opened evs = [] \<and> closed evs = [] \<and> removes evs = []
     \<and> \<not> failed_io (butlast evs)
     \<and> failed_io_ev (last evs) = (ex \<noteq> EndOfInput)
     \<and> (ex \<noteq> EndOfInput \<longrightarrow> errno s' = r_errno (os (clock s' - 1))
                                \<and> \<not> r_ok (os (clock s' - 1)))"

text \<open>Arguments as the constructor leaves them for a call with a progress callback.\<close>

definition some_args :: Args where
  "some_args = \<lparr>Source = ''a'', Destination = ''b'', ProgressCallback = Some 6,
                 ResultCallback = Some 7, UpdateProgress = True\<rparr>"




text \<open>A file of five bytes, read in chunks of three and two bytes.\<close>

definition tiny_file :: os where
  "tiny_file = script [deliver [1, 2, 3], yield 3, deliver [4, 5], yield 2, deliver []] succeed"

definition tiny_file_end :: state where
  "tiny_file_end =
     \<lparr>clock = 8, errno = 0,
      trace =
        [Sys (SysRead 3 16384) 3, Sys (SysWrite 4 [1, 2, 3]) 3, Progress (Some 6) 3 5,
         Sys (SysRead 3 16384) 2, Sys (SysWrite 4 [4, 5]) 2, Progress (Some 6) 5 5,
         Sys (SysRead 3 16384) 0, Progress (Some 6) 5 5,
         Sys (SysClose 3) 0, Sys (SysFsync 4) 0, Sys (SysClose 4) 0,
         Complete (Some 7) None True]\<rparr>"

text \<open>The state after one call, and the two \<open>open\<close> events of \<open>Copy\<close> and \<open>Move\<close>.\<close>

definition after :: "os \<Rightarrow> syscall \<Rightarrow> state \<Rightarrow> state" where
  "after os c s = snd (snd (sys os c s))"

abbreviation open_in :: "Args \<Rightarrow> int \<Rightarrow> event" where
  "open_in args rv \<equiv> Sys (SysOpen (Source args) [O_RDONLY, O_BINARY] None) rv"

abbreviation open_out :: "Args \<Rightarrow> nat \<Rightarrow> int \<Rightarrow> event" where
  "open_out args m rv \<equiv>
     Sys (SysOpen (Destination args) [O_WRONLY, O_CREAT, O_TRUNC, O_BINARY] (Some m)) rv"

text \<open>A move whose calls start at call \<open>k\<close> is across devices when both files open,
  both \<open>fstat\<close> calls succeed, and the device identifiers they report differ.\<close>

definition cross_device :: "os \<Rightarrow> nat \<Rightarrow> bool" where
  "cross_device os k =
     (r_ok (os k) \<and> r_ok (os (Suc k)) \<and> r_ok (os (Suc (Suc k)))
      \<and> r_ok (os (Suc (Suc (Suc k))))
      \<and> st_dev (r_stat (os (Suc k))) \<noteq> st_dev (r_stat (os (Suc (Suc (Suc k))))))"

text \<open>The arguments the constructor makes of \<open>plain_call\<close>.\<close>

definition plain_args :: Args where
  "plain_args = \<lparr>Source = ''a'', Destination = ''b'', ProgressCallback = None,
                  ResultCallback = Some 7, UpdateProgress = False\<rparr>"

text \<open>\<open>Copy\<close> of a file of five bytes that is read in chunks of three and two bytes.\<close>

definition copy_tiny :: os where
  "copy_tiny =
     script [yield 3, stat_is 420 5 1, yield 4, deliver [1, 2, 3], yield 3, deliver [4, 5],
             yield 2, deliver []] succeed"

definition copy_tiny_end :: state where
  "copy_tiny_end =
     \<lparr>clock = 11, errno = 0,
      trace =
        [Sys (SysOpen ''a'' [O_RDONLY, O_BINARY] None) 3, Sys (SysFstat 3) 0,
         Sys (SysOpen ''b'' [O_WRONLY, O_CREAT, O_TRUNC, O_BINARY] (Some 420)) 4,
         Sys (SysRead 3 16384) 3, Sys (SysWrite 4 [1, 2, 3]) 3, Progress (Some 6) 3 5,
         Sys (SysRead 3 16384) 2, Sys (SysWrite 4 [4, 5]) 2, Progress (Some 6) 5 5,
         Sys (SysRead 3 16384) 0, Progress (Some 6) 5 5,
         Sys (SysClose 3) 0, Sys (SysFsync 4) 0, Sys (SysClose 4) 0,
         Complete (Some 7) None True]\<rparr>"

text \<open>The same copy on an operating system every response of which would accept at
  least one byte if the call were a \<open>write\<close>, and which delivers no data after the
  seventh call.\<close>

definition steady_copy :: os where
  "steady_copy =
     script [yield 3, ans True 0 1 [] \<lparr>st_mode = 420, st_size = 5, st_dev = 1\<rparr>, yield 4,
             ans True 0 1 [1, 2, 3] no_stat, yield 3, ans True 0 1 [4, 5] no_stat, yield 2]
       (yield 1)"

text \<open>\<open>Move\<close> of a file of two bytes from device 1 to device 2, everything succeeding.\<close>

definition move_across :: os where
  "move_across =
     script [yield 3, stat_is 420 2 1, yield 4, stat_is 420 0 2, deliver [1, 2], yield 2,
             deliver []] succeed"

definition move_across_end :: state where
  "move_across_end =
     \<lparr>clock = 11, errno = 0,
      trace =
        [Sys (SysOpen ''a'' [O_RDONLY, O_BINARY] None) 3, Sys (SysFstat 3) 0,
         Sys (SysOpen ''b'' [O_WRONLY, O_CREAT, O_TRUNC, O_BINARY] (Some 420)) 4,
         Sys (SysFstat 4) 0,
         Sys (SysRead 3 16384) 2, Sys (SysWrite 4 [1, 2]) 2, Sys (SysRead 3 16384) 0,
         Sys (SysClose 3) 0, Sys (SysFsync 4) 0, Sys (SysClose 4) 0,
         Sys (SysRemove ''a'') 0, Complete (Some 7) None True]\<rparr>"

text \<open>The same move from a medium that is read-only: the copy succeeds, and \<open>remove\<close>
  of the source fails with \<open>EROFS\<close> (30).\<close>

definition remove_source_fails :: os where
  "remove_source_fails =
     script [yield 3, stat_is 420 2 1, yield 4, stat_is 420 0 2, deliver [1, 2], yield 2,
             deliver [], succeed, succeed, succeed, fail_with 30] succeed"

text \<open>A source whose \<open>st_size\<close> is 0 and that delivers three bytes all the same, as the
  files of \<open>procfs\<close> do.\<close>

definition proc_file :: os where
  "proc_file =
     script [yield 3, stat_is 292 0 1, yield 4, deliver [1, 2, 3], yield 3, deliver []] succeed"

text \<open>The source may not be read (\<open>EACCES\<close>, 13) and nothing exists at the destination
  (\<open>remove\<close> fails with \<open>ENOENT\<close>, 2).\<close>

definition unreadable_source :: os where
  "unreadable_source = script [fail_with 13, fail_with 2] succeed"

text \<open>The calls whose return value \<open>Copy\<close> and \<open>Move\<close> look at, and whose failure
  sends them to an error exit; and \<open>close\<close> called on each of a list of descriptors, with
  the values the calls return.\<close>

fun cause :: "syscall \<Rightarrow> bool" where
  "cause (SysOpen p fl m) = True"
| "cause (SysFstat fd) = True"
| "cause (SysRead fd n) = True"
| "cause (SysWrite fd d) = True"
| "cause c = False"

fun closes :: "int list \<Rightarrow> int list \<Rightarrow> event list" where
  "closes (fd # fds) (r # rs) = Sys (SysClose fd) r # closes fds rs"
| "closes fds rs = []"


text \<open>The source does not exist (\<open>ENOENT\<close>, 2) and the destination is an empty
  directory: \<open>remove\<close> succeeds on it and leaves \<open>EISDIR\<close> (21) in \<open>errno\<close>.\<close>

definition directory_in_the_way :: os where
  "directory_in_the_way = script [fail_with 2, succeed_leaving 21] succeed"

text \<open>\<open>Copy\<close> of five bytes: the \<open>write\<close> fails with \<open>ENOSPC\<close> (28), \<open>close\<close> of the
  destination fails with \<open>EIO\<close> (5), and \<open>remove\<close> succeeds.\<close>

definition close_fails :: os where
  "close_fails =
     script [yield 3, stat_is 420 5 1, yield 4, deliver [1, 2, 3, 4, 5], fail_with 28,
             succeed, fail_with 5, succeed] succeed"

definition close_fails_end :: state where
  "close_fails_end =
     \<lparr>clock = 8, errno = 5,
      trace =
        [Sys (SysOpen ''a'' [O_RDONLY, O_BINARY] None) 3, Sys (SysFstat 3) 0,
         Sys (SysOpen ''b'' [O_WRONLY, O_CREAT, O_TRUNC, O_BINARY] (Some 420)) 4,
         Sys (SysRead 3 16384) 5, Sys (SysWrite 4 [1, 2, 3, 4, 5]) (- 1),
         Sys (SysClose 3) 0, Sys (SysClose 4) (- 1), Sys (SysRemove ''b'') 0,
         Complete (Some 7) (Some (strerror 5)) False]\<rparr>"

text \<open>\<open>Move\<close> from device 1 to device 2: the first \<open>read\<close> fails with \<open>EIO\<close> (5),
  both descriptors close, and \<open>remove\<close> of the destination fails with \<open>EACCES\<close> (13).\<close>

definition move_read_fails :: os where
  "move_read_fails =
     script [yield 3, stat_is 420 2 1, yield 4, stat_is 420 0 2, fail_with 5,
             succeed, succeed, fail_with 13] succeed"

definition move_read_fails_end :: state where
  "move_read_fails_end =
     \<lparr>clock = 8, errno = 13,
      trace =
        [Sys (SysOpen ''a'' [O_RDONLY, O_BINARY] None) 3, Sys (SysFstat 3) 0,
         Sys (SysOpen ''b'' [O_WRONLY, O_CREAT, O_TRUNC, O_BINARY] (Some 420)) 4,
         Sys (SysFstat 4) 0, Sys (SysRead 3 16384) (- 1),
         Sys (SysClose 3) 0, Sys (SysClose 4) 0, Sys (SysRemove ''b'') (- 1),
         Complete (Some 7) (Some (strerror 13)) False]\<rparr>"


section \<open>Facts about single calls\<close>

lemmas proj_defs = progress_of_def completions_def reads_of_def opened_def closed_def
  removes_def accepted_def failed_io_def

lemmas resp_defs = ans_def no_stat_def succeed_def succeed_leaving_def fail_with_def yield_def
  deliver_def
  stat_is_def script_def start_def

lemmas call_defs = sys_def sys_open_def sys_fstat_def sys_read_def sys_write_def
  sys_close_def sys_fsync_def sys_remove_def sys_rename_def

lemmas cb_defs = ThrowError_def SendProgressUpdate_values_def SendProgressUpdate_def
  SendComplete_def SendError_def

lemmas arg_defs = Args_ctor_def Args_members_def arg_at_def

lemma bind_weak_cong: "x = y \<Longrightarrow> Option.bind x f = Option.bind y f"
  by simp

lemma retval_write_range:
  "retval (SysWrite fd d) r = - 1
   \<or> (0 \<le> retval (SysWrite fd d) r \<and> retval (SysWrite fd d) r \<le> int (length d))"
  by simp

lemma sys_write_eq:
  assumes "sys_write os fd d s = (rv, s')"
  shows "rv = retval (SysWrite fd d) (os (clock s))"
    and "trace s' = trace s @ [Sys (SysWrite fd d) rv]"
    and "clock s' = Suc (clock s)"
    and "errno s' = (if rv = - 1 then r_errno (os (clock s))
                     else case r_touch (os (clock s)) of None \<Rightarrow> errno s | Some e \<Rightarrow> e)"
    and "rv = - 1 \<Longrightarrow> \<not> r_ok (os (clock s))"
  using assms by (auto simp: sys_write_def sys_def Let_def split: if_splits)

section \<open>\<open>doWrite\<close>\<close>

text \<open>What holds whenever \<open>doWrite\<close> returns: it made at least one call, every call was a
  write to the descriptor, only the last call can have failed, and either it returns
  \<open>-1\<close> after a failed call, or the calls accepted the chunk, byte for byte.\<close>

lemma doWrite_post:
  assumes "doWrite os fd data s = Some y"
  shows "\<exists>evs. trace (snd y) = trace s @ evs \<and> evs \<noteq> [] \<and> list_all (write_ev fd) evs
           \<and> clock (snd y) = clock s + length evs
           \<and> \<not> failed_io (butlast evs)
           \<and> (fst y = - 1 \<longrightarrow> failed_io_ev (last evs)
                 \<and> errno (snd y) = r_errno (os (clock (snd y) - 1))
                 \<and> \<not> r_ok (os (clock (snd y) - 1)))
           \<and> (fst y \<noteq> - 1 \<longrightarrow> \<not> failed_io_ev (last evs) \<and> accepted fd evs = data)"
  using assms
proof (induction os fd data s y rule: doWrite.raw_induct [rotated, consumes 1])
  case (1 doWrite' os fd data s y)
  obtain written s1 where w: "sys_write os fd data s = (written, s1)"
    by (cases "sys_write os fd data s")
  note f = sys_write_eq [OF w]
  have rng: "written = - 1 \<or> (0 \<le> written \<and> written \<le> int (length data))"
    using f(1) retval_write_range by simp
  show ?case
  proof (cases "written = - 1")
    case True
    with 1(2) w have "y = (- 1, s1)" by simp
    moreover have "\<not> r_ok (os (clock s))" using True by (rule f(5))
    ultimately show ?thesis
      using True f(2-4)
      by (intro exI [of _ "[Sys (SysWrite fd data) written]"]) (simp add: proj_defs)
  next
    case False
    note nf = this
    show ?thesis
    proof (cases "nat written < length data")
      case True
      with nf 1(2) w have rec: "doWrite' os fd (drop (nat written) data) s1 = Some y"
        by simp
      from 1(1) [OF rec] obtain evs where e:
        "trace (snd y) = trace s1 @ evs" "evs \<noteq> []" "list_all (write_ev fd) evs"
        "clock (snd y) = clock s1 + length evs"
        "\<not> failed_io (butlast evs)"
        "fst y = - 1 \<longrightarrow> failed_io_ev (last evs)
           \<and> errno (snd y) = r_errno (os (clock (snd y) - 1))
           \<and> \<not> r_ok (os (clock (snd y) - 1))"
        "fst y \<noteq> - 1 \<longrightarrow> \<not> failed_io_ev (last evs)
           \<and> accepted fd evs = drop (nat written) data"
        by blast
      show ?thesis
        using e f(1-4) nf rng
        by (intro exI [of _ "Sys (SysWrite fd data) written # evs"])
           (auto simp: proj_defs butlast_append)
    next
      case False
      with nf 1(2) w have "y = (written, s1)" by simp
      with False nf f(1-4) rng show ?thesis
        by (intro exI [of _ "[Sys (SysWrite fd data) written]"]) (auto simp: proj_defs)
    qed
  qed
qed

text \<open>It returns when every write that succeeds accepts at least one byte.\<close>

lemma doWrite_returns:
  assumes "\<forall>k\<ge>clock s. r_ok (os k) \<longrightarrow> 0 < r_val (os k)"
  shows "\<exists>y. doWrite os fd data s = Some y"
  using assms
proof (induction "length data" arbitrary: data s rule: less_induct)
  case less
  obtain written s1 where w: "sys_write os fd data s = (written, s1)"
    by (cases "sys_write os fd data s")
  note f = sys_write_eq [OF w]
  show ?case
  proof (cases "written \<noteq> - 1 \<and> nat written < length data")
    case True
    have "r_ok (os (clock s))" using True f(1) by (simp split: if_splits)
    then have "0 < r_val (os (clock s))" using less.prems by simp
    then have "0 < written" using True f(1) by (auto split: if_splits)
    then have shorter: "length (drop (nat written) data) < length data"
      using True by simp
    have "\<forall>k\<ge>clock s1. r_ok (os k) \<longrightarrow> 0 < r_val (os k)"
      using less.prems f(3) by simp
    from less.hyps [OF shorter this] obtain y where
      "doWrite os fd (drop (nat written) data) s1 = Some y" by blast
    then show ?thesis using True w by (subst doWrite.simps) simp
  next
    case False
    then show ?thesis using w by (subst doWrite.simps) auto
  qed
qed

text \<open>On the descriptor that accepts nothing, a return is possible for the empty chunk
  only.\<close>

lemma doWrite_stuck:
  assumes "doWrite os fd data s = Some y"
  shows "os = zero_writes \<longrightarrow> data = []"
  using assms
proof (induction os fd data s y rule: doWrite.raw_induct [rotated, consumes 1])
  case (1 doWrite' os fd data s y)
  show ?case
  proof
    assume z: "os = zero_writes"
    obtain written s1 where w: "sys_write os fd data s = (written, s1)"
      by (cases "sys_write os fd data s")
    have "written = 0"
      using sys_write_eq(1) [OF w] z
      by (simp add: zero_writes_def script_def yield_def ans_def)
    show "data = []"
    proof (rule ccontr)
      assume "data \<noteq> []"
      with \<open>written = 0\<close> w 1(2) have "doWrite' os fd data s1 = Some y" by simp
      from 1(1) [OF this] z \<open>data \<noteq> []\<close> show False by simp
    qed
  qed
qed

text \<open>
  C8. As stated the claim fails: on a descriptor that reports zero-length writes for ever,
  \<open>doWrite\<close> on a non-empty chunk never returns.
\<close>

theorem doWrite_zero_writes_never_returns:
  "doWrite zero_writes 4 [1, 2, 3] start = None"
proof (cases "doWrite zero_writes 4 [1, 2, 3] start")
  case None
  then show ?thesis .
next
  case (Some y)
  from doWrite_stuck [OF this] show ?thesis by simp
qed

text \<open>
  C8, amended. Whenever \<open>doWrite\<close> returns, it made only writes to the descriptor, and
  it returns either \<open>-1\<close> right after a write that failed, or after its writes, none of
  which failed, accepted the bytes of the chunk, in order. It does return when every write
  that succeeds accepts at least one byte; nothing in it bounds the retries otherwise.
\<close>

theorem doWrite_returns_after_all_bytes_or_error:
  "(doWrite os fd data s = Some (r, s') \<longrightarrow>
      (\<exists>evs. trace s' = trace s @ evs \<and> list_all (write_ev fd) evs
         \<and> (if r = - 1 then failed_io_ev (last evs)
             else accepted fd evs = data \<and> \<not> failed_io evs)))
   \<and> ((\<forall>k\<ge>clock s. r_ok (os k) \<longrightarrow> 0 < r_val (os k)) \<longrightarrow>
        (\<exists>y. doWrite os fd data s = Some y))"
proof (intro conjI impI)
  assume "doWrite os fd data s = Some (r, s')"
  from doWrite_post [OF this] obtain evs where e:
    "trace s' = trace s @ evs" "evs \<noteq> []" "list_all (write_ev fd) evs"
    "\<not> failed_io (butlast evs)"
    "r = - 1 \<longrightarrow> failed_io_ev (last evs)"
    "r \<noteq> - 1 \<longrightarrow> \<not> failed_io_ev (last evs) \<and> accepted fd evs = data"
    by auto
  have "failed_io evs = (failed_io (butlast evs) \<or> failed_io_ev (last evs))"
    using e(2) by (subst append_butlast_last_id [symmetric]) (simp_all add: failed_io_def del: append_butlast_last_id)
  with e show "\<exists>evs. trace s' = trace s @ evs \<and> list_all (write_ev fd) evs
         \<and> (if r = - 1 then failed_io_ev (last evs)
             else accepted fd evs = data \<and> \<not> failed_io evs)"
    by (intro exI [of _ evs]) simp
next
  assume "\<forall>k\<ge>clock s. r_ok (os k) \<longrightarrow> 0 < r_val (os k)"
  then show "\<exists>y. doWrite os fd data s = Some y" by (rule doWrite_returns)
qed

text \<open>
  C8, on a run: the descriptor accepts two bytes per call, and a chunk of three bytes
  takes two calls, the second one on the last byte.
\<close>

theorem doWrite_returns_after_all_bytes_or_error_witness:
  "doWrite two_at_a_time 4 [1, 2, 3] start
     = Some (1, \<lparr>clock = 2, errno = 0,
                 trace = [Sys (SysWrite 4 [1, 2, 3]) 2, Sys (SysWrite 4 [3]) 1]\<rparr>)
   \<and> (\<exists>evs. [Sys (SysWrite 4 [1, 2, 3]) 2, Sys (SysWrite 4 [3]) 1] = trace start @ evs
         \<and> list_all (write_ev 4) evs \<and> accepted 4 evs = [1, 2, 3] \<and> \<not> failed_io evs)
   \<and> (\<exists>y. doWrite two_at_a_time 4 [1, 2, 3] start = Some y)"
proof -
  have run: "doWrite two_at_a_time 4 [1, 2, 3] start
     = Some (1, \<lparr>clock = 2, errno = 0,
                 trace = [Sys (SysWrite 4 [1, 2, 3]) 2, Sys (SysWrite 4 [3]) 1]\<rparr>)"
    by (simp add: doWrite.simps two_at_a_time_def resp_defs call_defs Let_def
          split del: if_split cong: prod.case_cong_weak)
  have hyp: "\<forall>k\<ge>clock start. r_ok (two_at_a_time k) \<longrightarrow> 0 < r_val (two_at_a_time k)"
    by (simp add: two_at_a_time_def resp_defs)
  from doWrite_returns_after_all_bytes_or_error
         [of two_at_a_time 4 "[1, 2, 3]" start 1
            "\<lparr>clock = 2, errno = 0,
              trace = [Sys (SysWrite 4 [1, 2, 3]) 2, Sys (SysWrite 4 [3]) 1]\<rparr>"]
       run hyp
  show ?thesis by simp
qed

section \<open>Facts about traces\<close>

lemma sys_read_eq:
  assumes "sys_read os fd n s = (rv, buf, s')"
  shows "rv = retval (SysRead fd n) (os (clock s))"
    and "trace s' = trace s @ [Sys (SysRead fd n) rv]"
    and "clock s' = Suc (clock s)"
    and "errno s' = (if rv = - 1 then r_errno (os (clock s))
                     else case r_touch (os (clock s)) of None \<Rightarrow> errno s | Some e \<Rightarrow> e)"
    and "- 1 \<le> rv"
    and "rv = - 1 \<Longrightarrow> \<not> r_ok (os (clock s))"
  using assms by (auto simp: sys_read_def sys_def Let_def split: if_splits)

lemma SendProgressUpdate_eq:
  "trace (SendProgressUpdate args d t s)
     = trace s @ (if UpdateProgress args then [Progress (ProgressCallback args) d t] else [])"
  "clock (SendProgressUpdate args d t s) = clock s"
  "errno (SendProgressUpdate args d t s) = errno s"
  by (simp_all add: SendProgressUpdate_def SendProgressUpdate_values_def)

lemma proj_Nil [simp]:
  "progress_of [] = []" "completions [] = []" "reads_of [] = []" "opened [] = []"
  "closed [] = []" "removes [] = []" "accepted fd [] = []" "failed_io [] = False"
  by (simp_all add: proj_defs)

lemma proj_Cons [simp]:
  "progress_of (e # es) = progress_ev e @ progress_of es"
  "completions (e # es) = complete_ev e @ completions es"
  "reads_of (e # es) = read_ev e @ reads_of es"
  "opened (e # es) = open_ev e @ opened es"
  "closed (e # es) = close_ev e @ closed es"
  "removes (e # es) = remove_ev e @ removes es"
  "accepted fd (e # es) = accept_ev fd e @ accepted fd es"
  "failed_io (e # es) = (failed_io_ev e \<or> failed_io es)"
  by (simp_all add: proj_defs)

lemma proj_append [simp]:
  "progress_of (xs @ ys) = progress_of xs @ progress_of ys"
  "completions (xs @ ys) = completions xs @ completions ys"
  "reads_of (xs @ ys) = reads_of xs @ reads_of ys"
  "opened (xs @ ys) = opened xs @ opened ys"
  "closed (xs @ ys) = closed xs @ closed ys"
  "removes (xs @ ys) = removes xs @ removes ys"
  "accepted fd (xs @ ys) = accepted fd xs @ accepted fd ys"
  "failed_io (xs @ ys) = (failed_io xs \<or> failed_io ys)"
  by (simp_all add: proj_defs)

lemma writes_only:
  assumes "list_all (write_ev fd) evs"
  shows "progress_of evs = []" and "completions evs = []" and "reads_of evs = []"
    and "opened evs = []" and "closed evs = []" and "removes evs = []"
  using assms
  by (induction evs; auto elim: write_ev.elims)+

lemma failed_io_snoc: "evs \<noteq> [] \<Longrightarrow> failed_io evs = (failed_io (butlast evs) \<or> failed_io_ev (last evs))"
  by (subst append_butlast_last_id [symmetric])
     (simp_all del: append_butlast_last_id)

lemma doWrite_events:
  assumes "doWrite os fd data s = Some (r, s')"
  obtains evs where "trace s' = trace s @ evs" and "evs \<noteq> []" and "list_all (write_ev fd) evs"
    and "clock s' = clock s + length evs"
    and "\<not> failed_io (butlast evs)"
    and "failed_io_ev (last evs) = (r = - 1)"
    and "r = - 1 \<Longrightarrow> errno s' = r_errno (os (clock s' - 1))"
    and "r \<noteq> - 1 \<Longrightarrow> accepted fd evs = data"
  using doWrite_post [OF assms] by auto

lemma doWrite_fails:
  assumes "doWrite os fd data s = Some (- 1, s')"
  shows "\<not> r_ok (os (clock s' - 1))"
  using doWrite_post [OF assms] by auto

lemma failed_write_is_failed_io: "failed_write_ev e \<Longrightarrow> failed_io_ev e"
  by (erule failed_write_ev.elims) simp

lemma no_failed_write: "\<not> failed_io es \<Longrightarrow> \<not> list_ex failed_write_ev es"
  by (auto simp: failed_io_def list_ex_iff dest: failed_write_is_failed_io)

lemma failed_write_last:
  "es \<noteq> [] \<Longrightarrow> \<not> failed_io (butlast es) \<Longrightarrow> list_ex failed_write_ev es = failed_write_ev (last es)"
  using no_failed_write [of "butlast es"]
  by (subst append_butlast_last_id [symmetric]) (simp_all del: append_butlast_last_id)

lemma writes_failed_write:
  "list_all (write_ev fd) es \<Longrightarrow> es \<noteq> [] \<Longrightarrow> failed_write_ev (last es) = failed_io_ev (last es)"
  by (induction es) (auto elim: write_ev.elims)

section \<open>The loop of \<open>Copy\<close>\<close>

lemma copy_loop_post:
  assumes "copy_loop os args fd_in fd_out inputSize t p a s = Some y"
  shows "\<exists>evs. loop_events os args inputSize t p a s (fst y) (snd y) evs"
  using assms
proof (induction os args fd_in fd_out inputSize t p a s y
        rule: copy_loop.raw_induct [rotated, consumes 1])
  case (1 copy_loop' os args fd_in fd_out inputSize t p a s y)
  obtain n buf s1 where rd: "sys_read os fd_in BUFFER_SIZE s = (n, buf, s1)"
    by (cases "sys_read os fd_in BUFFER_SIZE s")
  note r = sys_read_eq(1-5) [OF rd]
  let ?rd = "Sys (SysRead fd_in BUFFER_SIZE) n"
  show ?case
  proof (cases "0 < n")
    case False
    then have y: "y = (if n = - 1 then ReadError else EndOfInput, s1)"
      using 1(2) rd by (simp split: if_splits)
    have "n = - 1 \<longrightarrow> \<not> r_ok (os (clock s1 - 1))"
      using sys_read_eq(6) [OF rd] r(3) by simp
    then have "loop_events os args inputSize t p a s (fst y) (snd y) [?rd]"
      using False r y by (auto simp: loop_events_def chunks_def)
    then show ?thesis ..
  next
    case True
    note pos = this
    from 1(2) rd pos obtain w s2 where dw: "doWrite os fd_out buf s1 = Some (w, s2)"
      by (cases "doWrite os fd_out buf s1") auto
    from doWrite_events [OF dw] obtain wevs where we:
      "trace s2 = trace s1 @ wevs" "wevs \<noteq> []" "list_all (write_ev fd_out) wevs"
      "\<not> failed_io (butlast wevs)" "failed_io_ev (last wevs) = (w = - 1)"
      "clock s2 = clock s1 + length wevs"
      "w = - 1 \<Longrightarrow> errno s2 = r_errno (os (clock s2 - 1))"
      by blast
    note wo = writes_only [OF we(3)]
    show ?thesis
    proof (cases "w = - 1")
      case True
      then have y: "y = (WriteError, s2)" using 1(2) rd pos dw by simp
      have "\<not> r_ok (os (clock s2 - 1))"
        using dw True by (intro doWrite_fails [of os fd_out buf s1]) simp
      note we = we this
      have fw: "failed_write_ev (last wevs)"
        using writes_failed_write [OF we(3) we(2)] we(5) True by simp
      then have "list_ex failed_write_ev wevs"
        using we(2) by (subst append_butlast_last_id [symmetric]) (simp_all del: append_butlast_last_id)
      then have "chunks (?rd # wevs) = []"
        using wo pos by (simp add: chunks_def)
      then have "loop_events os args inputSize t p a s (fst y) (snd y) (?rd # wevs)"
        using True y r we wo pos fw
        by (auto simp: loop_events_def butlast_append)
      then show ?thesis ..
    next
      case False
      note wok = this
      have nf: "\<not> failed_io wevs"
        using we wok failed_io_snoc [of wevs] by simp
      let ?notify = "t < a + n"
      let ?s3 = "if ?notify then SendProgressUpdate args (p + n) inputSize s2 else s2"
      let ?a' = "if ?notify then 0 else a + n"
      let ?pevs = "if ?notify \<and> UpdateProgress args
                   then [Progress (ProgressCallback args) (p + n) inputSize] else []"
      have rec: "copy_loop' os args fd_in fd_out inputSize t (p + n) ?a' ?s3 = Some y"
        using 1(2) rd pos dw wok by (simp split: if_splits)
      from 1(1) [OF rec] obtain revs where
        le: "loop_events os args inputSize t (p + n) ?a' ?s3 (fst y) (snd y) revs"
        by blast
      have tr3: "trace ?s3 = trace s @ ?rd # wevs @ ?pevs"
        using r we by (simp add: SendProgressUpdate_eq)
      have ck3: "clock s < clock ?s3"
        using r we by (simp add: SendProgressUpdate_eq)
      have nfev: "\<not> failed_io (?rd # wevs @ ?pevs)"
        using pos nf by simp
      have rne: "fst y = WriteError \<Longrightarrow> reads_of revs \<noteq> []"
        using le by (simp add: loop_events_def)
      have fwr: "list_ex failed_write_ev revs = (fst y = WriteError)"
        using le failed_write_last [of revs] by (simp add: loop_events_def)
      have "\<not> list_ex failed_write_ev (?rd # wevs @ ?pevs)"
        using nfev by (rule no_failed_write)
      then have fwa: "list_ex failed_write_ev (?rd # wevs @ ?pevs @ revs) = (fst y = WriteError)"
        using fwr by (simp split: if_splits)
      have rda: "reads_of (?rd # wevs @ ?pevs @ revs) = n # reads_of revs"
        using pos wo by simp
      have acc: "chunks (?rd # wevs @ ?pevs @ revs) = n # chunks revs"
        unfolding chunks_def fwa fwr rda using rne by simp
      have "loop_events os args inputSize t p a s (fst y) (snd y) (?rd # wevs @ ?pevs @ revs)"
        unfolding loop_events_def
      proof (intro conjI)
        show "trace (snd y) = trace s @ ?rd # wevs @ ?pevs @ revs"
          using le tr3 by (simp add: loop_events_def)
        have "clock ?s3 < clock (snd y)" using le by (simp add: loop_events_def)
        with ck3 show "clock s < clock (snd y)" by simp
        show "progress_of (?rd # wevs @ ?pevs @ revs) =
          (if UpdateProgress args
           then map (\<lambda>d. (d, inputSize))
                  (spec_notifications t p a (chunks (?rd # wevs @ ?pevs @ revs)))
           else [])"
          unfolding acc using le wo
          by (auto simp: loop_events_def)
        show "set (progress_of (?rd # wevs @ ?pevs @ revs)) \<subseteq> {(d, t). t = inputSize}"
          using le wo by (auto simp: loop_events_def)
        show "fst y = WriteError \<longrightarrow> reads_of (?rd # wevs @ ?pevs @ revs) \<noteq> []"
          using pos by simp
        show "completions (?rd # wevs @ ?pevs @ revs) = []"
          using le wo by (simp add: loop_events_def)
        show "opened (?rd # wevs @ ?pevs @ revs) = []"
          using le wo by (simp add: loop_events_def)
        show "closed (?rd # wevs @ ?pevs @ revs) = []"
          using le wo by (simp add: loop_events_def)
        show "removes (?rd # wevs @ ?pevs @ revs) = []"
          using le wo by (simp add: loop_events_def)
        have ne: "revs \<noteq> []" using le by (simp add: loop_events_def)
        have "butlast (?rd # wevs @ ?pevs @ revs) = (?rd # wevs @ ?pevs) @ butlast revs"
          using ne by (simp add: butlast_append)
        then show "\<not> failed_io (butlast (?rd # wevs @ ?pevs @ revs))"
          using le nfev by (simp add: loop_events_def)
        have "last (?rd # wevs @ ?pevs @ revs) = last revs" using ne by simp
        then show "failed_io_ev (last (?rd # wevs @ ?pevs @ revs)) = (fst y \<noteq> EndOfInput)"
          and "failed_write_ev (last (?rd # wevs @ ?pevs @ revs)) = (fst y = WriteError)"
          using le by (simp_all add: loop_events_def)
        show "fst y \<noteq> EndOfInput \<longrightarrow> errno (snd y) = r_errno (os (clock (snd y) - 1))
                \<and> \<not> r_ok (os (clock (snd y) - 1))"
          using le by (simp add: loop_events_def)
      qed simp
      then show ?thesis ..
    qed
  qed
qed

section \<open>After the loop\<close>

lemma sys_close_eq [simp]:
  "trace (sys_close os fd s) = trace s @ [Sys (SysClose fd) (status os (clock s))]"
  "clock (sys_close os fd s) = Suc (clock s)"
  "errno (sys_close os fd s) = errno_after os (clock s) 1 (errno s)"
  by (simp_all add: sys_close_def sys_def Let_def status_def errno_next_def)

lemma sys_fsync_eq [simp]:
  "trace (sys_fsync os fd s) = trace s @ [Sys (SysFsync fd) (status os (clock s))]"
  "clock (sys_fsync os fd s) = Suc (clock s)"
  "errno (sys_fsync os fd s) = errno_after os (clock s) 1 (errno s)"
  by (simp_all add: sys_fsync_def sys_def Let_def status_def errno_next_def)

lemma sys_remove_eq [simp]:
  "trace (sys_remove os p s) = trace s @ [Sys (SysRemove p) (status os (clock s))]"
  "clock (sys_remove os p s) = Suc (clock s)"
  "errno (sys_remove os p s) = errno_after os (clock s) 1 (errno s)"
  by (simp_all add: sys_remove_def sys_def Let_def status_def errno_next_def)

lemma sys_rename_eq [simp]:
  "trace (sys_rename os p q s) = trace s @ [Sys (SysRename p q) (status os (clock s))]"
  "clock (sys_rename os p q s) = Suc (clock s)"
  "errno (sys_rename os p q s) = errno_after os (clock s) 1 (errno s)"
  by (simp_all add: sys_rename_def sys_def Let_def status_def errno_next_def)

lemma SendComplete_eq [simp]:
  "trace (SendComplete args s) = trace s @ [Complete (ResultCallback args) None True]"
  "clock (SendComplete args s) = clock s"
  "errno (SendComplete args s) = errno s"
  by (simp_all add: SendComplete_def)

lemma SendError_eq [simp]:
  "trace (SendError args t s) = trace s @ [Complete (ResultCallback args) (Some t) False]"
  "clock (SendError args t s) = clock s"
  "errno (SendError args t s) = errno s"
  by (simp_all add: SendError_def)

lemma copyByFdError_eq:
  "trace (copyByFdError os args fi fo s) =
     trace s @ [Sys (SysClose fi) (status os (clock s)),
                Sys (SysClose fo) (status os (Suc (clock s))),
                Sys (SysRemove (Destination args)) (status os (Suc (Suc (clock s)))),
                Complete (ResultCallback args)
                  (Some (strerror (errno_after os (clock s) 3 (errno s)))) False]"
  "clock (copyByFdError os args fi fo s) = Suc (Suc (Suc (clock s)))"
  "errno (copyByFdError os args fi fo s) = errno_after os (clock s) 3 (errno s)"
  by (simp_all add: copyByFdError_def Let_def numeral_3_eq_3)

lemma copyByPathError_eq:
  "trace (copyByPathError os args s) =
     trace s @ [Sys (SysRemove (Destination args)) (status os (clock s)),
                Complete (ResultCallback args)
                  (Some (strerror (errno_after os (clock s) 1 (errno s)))) False]"
  "clock (copyByPathError os args s) = Suc (clock s)"
  "errno (copyByPathError os args s) = errno_after os (clock s) 1 (errno s)"
  by (simp_all add: copyByPathError_def Let_def)

lemma moveError_eq:
  "trace (moveError os args s) =
     trace s @ [Sys (SysRemove (Destination args)) (status os (clock s)),
                Complete (ResultCallback args)
                  (Some (strerror (errno_after os (clock s) 1 (errno s)))) False]"
  "clock (moveError os args s) = Suc (clock s)"
  "errno (moveError os args s) = errno_after os (clock s) 1 (errno s)"
  by (simp_all add: moveError_def Let_def)

lemma Copy_fd_cases:
  assumes "Copy_fd os fi fo inputSize args rm s = Some s'"
  obtains ex s1 levs where
    "loop_events os args inputSize (inputSize sdiv 100) 0 0 s ex s1 levs"
    and "ex = EndOfInput \<Longrightarrow>
           trace s' = trace s1 @ success_tail os args fi fo inputSize rm (clock s1)"
    and "ex \<noteq> EndOfInput \<Longrightarrow>
           trace s' = trace s1 @ failure_tail os args fi fo (clock s1) (errno s1)
           \<and> clock s' = Suc (Suc (Suc (clock s1)))
           \<and> errno s' = errno_after os (clock s1) 3 (errno s1)"
proof -
  from assms obtain ex s1 where
    lp: "copy_loop os args fi fo inputSize (inputSize sdiv 100) 0 0 s = Some (ex, s1)"
    by (cases "copy_loop os args fi fo inputSize (inputSize sdiv 100) 0 0 s")
       (auto simp: Copy_fd_def)
  from copy_loop_post [OF lp] obtain levs where
    le: "loop_events os args inputSize (inputSize sdiv 100) 0 0 s ex s1 levs" by auto
  have ok: "ex = EndOfInput \<Longrightarrow>
           trace s' = trace s1 @ success_tail os args fi fo inputSize rm (clock s1)"
    using assms lp
    by (auto simp: Copy_fd_def Let_def success_tail_def SendProgressUpdate_eq)
  have bad: "ex \<noteq> EndOfInput \<Longrightarrow>
           trace s' = trace s1 @ failure_tail os args fi fo (clock s1) (errno s1)
           \<and> clock s' = Suc (Suc (Suc (clock s1)))
           \<and> errno s' = errno_after os (clock s1) 3 (errno s1)"
    using assms lp
    by (auto simp: Copy_fd_def failure_tail_def copyByFdError_eq)
  from le ok bad show thesis by (rule that)
qed

section \<open>Runs of \<open>Copy\<close> on two descriptors\<close>

lemma loop_not_failed:
  assumes "loop_events os args z t p a s ex s1 levs"
  shows "failed_io levs = (ex \<noteq> EndOfInput)"
  using assms failed_io_snoc [of levs] by (simp add: loop_events_def)

lemma success_tail_proj [simp]:
  "failed_io (success_tail os args fi fo z rm k) = False"
  "reads_of (success_tail os args fi fo z rm k) = []"
  "list_ex failed_write_ev (success_tail os args fi fo z rm k) = False"
  "progress_of (success_tail os args fi fo z rm k) = (if UpdateProgress args then [(z, z)] else [])"
  "completions (success_tail os args fi fo z rm k) = [(ResultCallback args, None, True)]"
  "closed (success_tail os args fi fo z rm k) = [fi, fo]"
  "opened (success_tail os args fi fo z rm k) = []"
  "removes (success_tail os args fi fo z rm k)
     = (if rm then [(Source args, status os (Suc (Suc (Suc k))))] else [])"
  by (simp_all add: success_tail_def)

lemma failure_tail_proj [simp]:
  "failed_io (failure_tail os args fi fo k e) = False"
  "reads_of (failure_tail os args fi fo k e) = []"
  "list_ex failed_write_ev (failure_tail os args fi fo k e) = False"
  "progress_of (failure_tail os args fi fo k e) = []"
  "completions (failure_tail os args fi fo k e)
     = [(ResultCallback args, Some (strerror (errno_after os k 3 e)), False)]"
  "closed (failure_tail os args fi fo k e) = [fi, fo]"
  "opened (failure_tail os args fi fo k e) = []"
  "removes (failure_tail os args fi fo k e) = [(Destination args, status os (Suc (Suc k)))]"
  by (simp_all add: failure_tail_def)

lemma errno_after_ok:
  "status os k = 0 \<Longrightarrow> status os (Suc k) = 0 \<Longrightarrow> status os (Suc (Suc k)) = 0
   \<Longrightarrow> r_touch (os k) = None \<Longrightarrow> r_touch (os (Suc k)) = None
   \<Longrightarrow> r_touch (os (Suc (Suc k))) = None
   \<Longrightarrow> errno_after os k 3 e = e"
  by (simp add: status_def errno_next_def numeral_3_eq_3 split: if_splits)


lemma read_ev_pos: "n \<in> set (read_ev e) \<Longrightarrow> 0 < n"
  by (cases e rule: read_ev.cases) (auto split: if_splits)

lemma reads_pos: "n \<in> set (reads_of es) \<Longrightarrow> 0 < n"
  by (induction es) (auto dest: read_ev_pos)

lemma chunks_pos: "n \<in> set (chunks es) \<Longrightarrow> 0 < n"
  by (auto simp: chunks_def dest: in_set_butlastD reads_pos split: if_splits)

lemma spec_notifications_every:
  "(\<And>n. n \<in> set ns \<Longrightarrow> 0 < n) \<Longrightarrow> 0 \<le> a
   \<Longrightarrow> length (spec_notifications 0 p a ns) = length ns"
proof (induction ns arbitrary: p a)
  case Nil
  then show ?case by simp
next
  case (Cons n ns)
  have "0 < n" using Cons.prems(1) by simp
  with Cons.prems(2) have "0 < a + n" by simp
  then show ?case using Cons.IH [of 0 "p + n"] Cons.prems(1) by simp
qed

lemma spec_notifications_bounds:
  "(\<And>n. n \<in> set ns \<Longrightarrow> 0 < n) \<Longrightarrow> d \<in> set (spec_notifications t p a ns)
   \<Longrightarrow> p < d \<and> d \<le> p + sum_list ns"
proof (induction ns arbitrary: p a)
  case Nil
  then show ?case by simp
next
  case (Cons n ns)
  have n: "0 < n" using Cons.prems(1) by simp
  have ns: "0 \<le> sum_list ns"
    using Cons.prems(1) by (intro sum_list_nonneg) (auto intro: less_imp_le)
  from Cons.prems(2) consider "d = p + n" | a' where "d \<in> set (spec_notifications t (p + n) a' ns)"
    by (auto split: if_splits)
  then show ?case
  proof cases
    case 1
    then show ?thesis using n ns by simp
  next
    case 2
    from Cons.IH [OF _ 2] Cons.prems(1) have "p + n < d \<and> d \<le> p + n + sum_list ns" by simp
    then show ?thesis using n by simp
  qed
qed

lemma spec_notifications_sorted:
  "(\<And>n. n \<in> set ns \<Longrightarrow> 0 < n) \<Longrightarrow> sorted (spec_notifications t p a ns)"
proof (induction ns arbitrary: p a)
  case Nil
  then show ?case by simp
next
  case (Cons n ns)
  have "\<And>d a'. d \<in> set (spec_notifications t (p + n) a' ns) \<Longrightarrow> p + n \<le> d"
    using spec_notifications_bounds [of ns _ t "p + n"] Cons.prems by force
  then show ?case using Cons by auto
qed

lemma sdiv_small: "0 \<le> z \<Longrightarrow> z < 100 \<Longrightarrow> z sdiv (100::int) = 0"
  by (simp add: signed_divide_int_def)

lemma Copy_fd_progress:
  assumes run: "Copy_fd os fd_in fd_out inputSize args removeWhenDone s = Some s'"
      and tr: "trace s' = trace s @ evs"
  shows "progress_of evs =
           (if UpdateProgress args
            then map (\<lambda>d. (d, inputSize)) (spec_notifications (inputSize sdiv 100) 0 0 (chunks evs))
                 @ (if failed_io evs then [] else [(inputSize, inputSize)])
            else [])"
  using run
proof (rule Copy_fd_cases)
  fix ex s1 levs
  assume le: "loop_events os args inputSize (inputSize sdiv 100) 0 0 s ex s1 levs"
    and ok: "ex = EndOfInput \<Longrightarrow>
           trace s' = trace s1 @ success_tail os args fd_in fd_out inputSize removeWhenDone (clock s1)"
    and bad: "ex \<noteq> EndOfInput \<Longrightarrow>
           trace s' = trace s1 @ failure_tail os args fd_in fd_out (clock s1) (errno s1)
           \<and> clock s' = Suc (Suc (Suc (clock s1)))
           \<and> errno s' = errno_after os (clock s1) 3 (errno s1)"
  have t1: "trace s1 = trace s @ levs" using le by (simp add: loop_events_def)
  have pl: "progress_of levs =
          (if UpdateProgress args
           then map (\<lambda>d. (d, inputSize)) (spec_notifications (inputSize sdiv 100) 0 0 (chunks levs))
           else [])"
    using le by (simp add: loop_events_def)
  show ?thesis
  proof (cases "ex = EndOfInput")
    case True
    with ok tr t1 have evs: "evs = levs @ success_tail os args fd_in fd_out inputSize removeWhenDone (clock s1)"
      by simp
    have "chunks evs = chunks levs" unfolding evs chunks_def by simp
    moreover have "\<not> failed_io evs" using loop_not_failed [OF le] True evs by simp
    ultimately show ?thesis using pl evs by simp
  next
    case False
    with bad tr t1 have evs: "evs = levs @ failure_tail os args fd_in fd_out (clock s1) (errno s1)"
      by simp
    have "chunks evs = chunks levs" unfolding evs chunks_def by simp
    moreover have "failed_io evs" using loop_not_failed [OF le] False evs by simp
    ultimately show ?thesis using pl evs by simp
  qed
qed

text \<open>
  C7. With a progress callback, the notifications of a run of \<open>Copy\<close> on two descriptors
  are those the throttling rule asks for, with the threshold \<open>inputSize / 100\<close> truncated
  and the comparison strict, applied to the chunks the loop accounted for, followed by
  the final \<open>(inputSize, inputSize)\<close> when no read or write failed. For a size below 100
  the threshold is zero and every chunk accounted for has its notification.
\<close>

theorem Copy_fd_notifications:
  assumes run: "Copy_fd os fd_in fd_out inputSize args removeWhenDone s = Some s'"
      and tr: "trace s' = trace s @ evs"
      and ch: "UpdateProgress args"
  shows "progress_of evs =
           map (\<lambda>d. (d, inputSize)) (spec_notifications (inputSize sdiv 100) 0 0 (chunks evs))
           @ (if failed_io evs then [] else [(inputSize, inputSize)])
         \<and> (0 \<le> inputSize \<and> inputSize < 100 \<longrightarrow>
              inputSize sdiv 100 = 0
              \<and> length (spec_notifications (inputSize sdiv 100) 0 0 (chunks evs))
                  = length (chunks evs))"
proof (intro conjI impI)
  show "progress_of evs =
           map (\<lambda>d. (d, inputSize)) (spec_notifications (inputSize sdiv 100) 0 0 (chunks evs))
           @ (if failed_io evs then [] else [(inputSize, inputSize)])"
    using Copy_fd_progress [OF run tr] ch by simp
next
  assume small: "0 \<le> inputSize \<and> inputSize < 100"
  then show z: "inputSize sdiv 100 = 0" by (simp add: sdiv_small)
  show "length (spec_notifications (inputSize sdiv 100) 0 0 (chunks evs)) = length (chunks evs)"
    unfolding z by (rule spec_notifications_every) (simp_all add: chunks_pos)
qed


lemma run_tiny_file: "Copy_fd tiny_file 3 4 5 some_args False start = Some tiny_file_end"
  by (simp add: Copy_fd_def copyByFdError_def copy_loop.simps doWrite.simps BUFFER_SIZE_def
        tiny_file_def tiny_file_end_def some_args_def resp_defs call_defs cb_defs Let_def
        split del: if_split cong: prod.case_cong_weak bind_weak_cong)



text \<open>
  C7, on a run: the size is 5, the threshold 0, and each of the two chunks has its
  notification before the final one.
\<close>

theorem Copy_fd_notifications_witness:
  "Copy_fd tiny_file 3 4 5 some_args False start = Some tiny_file_end
   \<and> UpdateProgress some_args
   \<and> chunks (trace tiny_file_end) = [3, 2]
   \<and> progress_of (trace tiny_file_end) = [(3, 5), (5, 5), (5, 5)]
   \<and> progress_of (trace tiny_file_end) =
        map (\<lambda>d. (d, 5)) (spec_notifications (5 sdiv 100) 0 0 (chunks (trace tiny_file_end)))
        @ (if failed_io (trace tiny_file_end) then [] else [(5, 5)])
   \<and> (5::int) sdiv 100 = 0
   \<and> length (spec_notifications (5 sdiv 100) 0 0 (chunks (trace tiny_file_end)))
       = length (chunks (trace tiny_file_end))"
proof -
  have tr: "trace tiny_file_end = trace start @ trace tiny_file_end"
    by (simp add: start_def)
  have ch: "UpdateProgress some_args"
    by (simp add: some_args_def)
  have c: "chunks (trace tiny_file_end) = [3, 2]"
    by (simp add: tiny_file_end_def chunks_def)
  have p: "progress_of (trace tiny_file_end) = [(3, 5), (5, 5), (5, 5)]"
    by (simp add: tiny_file_end_def)
  from Copy_fd_notifications [OF run_tiny_file tr ch] run_tiny_file ch c p
  show ?thesis by simp
qed

section \<open>The exported functions\<close>

lemma after_eq [simp]:
  "trace (after os c s) = trace s @ [Sys c (retval c (os (clock s)))]"
  "clock (after os c s) = Suc (clock s)"
  by (simp_all add: after_def sys_def Let_def)

lemma sys_open_after:
  "sys_open os p fl m s = (retval (SysOpen p fl m) (os (clock s)), after os (SysOpen p fl m) s)"
  by (simp add: sys_open_def after_def sys_def Let_def)

lemma sys_fstat_after:
  "sys_fstat os fd s = (status os (clock s), r_stat (os (clock s)), after os (SysFstat fd) s)"
  by (simp add: sys_fstat_def after_def sys_def Let_def status_def)

lemma Copy_cases [consumes 2, case_names no_source no_stat no_dest copy]:
  assumes "Copy os junk incoming s = Some s'"
      and "Args_ctor junk incoming s = (args, s0)"
  obtains
    t c where
      "trace s' = trace s0 @ [open_in args (- 1), Sys (SysRemove (Destination args)) c,
                              Complete (ResultCallback args) (Some t) False]"
  | i t c1 c2 where "0 \<le> i"
      "trace s' = trace s0 @ [open_in args i, Sys (SysFstat i) (- 1), Sys (SysClose i) c1,
                              Sys (SysRemove (Destination args)) c2,
                              Complete (ResultCallback args) (Some t) False]"
  | i m t c1 c2 where "0 \<le> i"
      "trace s' = trace s0 @ [open_in args i, Sys (SysFstat i) 0, open_out args m (- 1),
                              Sys (SysClose i) c1, Sys (SysRemove (Destination args)) c2,
                              Complete (ResultCallback args) (Some t) False]"
  | i j s3 where "0 \<le> i" "0 \<le> j"
      "trace s3 = trace s0 @ [open_in args i, Sys (SysFstat i) 0,
                              open_out args (st_mode (r_stat (os (Suc (clock s0))))) j]"
      "Copy_fd os i j (st_size (r_stat (os (Suc (clock s0))))) args False s3 = Some s'"
proof -
  let ?k = "clock s0"
  let ?i = "int (r_val (os ?k))"
  let ?j = "int (r_val (os (Suc (Suc ?k))))"
  let ?s1 = "after os (SysOpen (Source args) [O_RDONLY, O_BINARY] None) s0"
  let ?s2 = "after os (SysFstat ?i) ?s1"
  let ?s3 = "after os (SysOpen (Destination args) [O_WRONLY, O_CREAT, O_TRUNC, O_BINARY]
                         (Some (st_mode (r_stat (os (Suc ?k)))))) ?s2"
  show thesis
  proof (cases "r_ok (os ?k)")
    case False
    then have "s' = copyByPathError os args ?s1"
      using assms by (simp add: Copy_def sys_open_after)
    then show thesis using False by (intro that(1)) (simp add: copyByPathError_eq)
  next
    case ok1: True
    show thesis
    proof (cases "r_ok (os (Suc ?k))")
      case False
      then have "s' = copyByPathError os args (sys_close os ?i ?s2)"
        using assms ok1 by (simp add: Copy_def sys_open_after sys_fstat_after status_def)
      then show thesis using False ok1
        by (intro that(2) [of ?i]) (simp_all add: copyByPathError_eq)
    next
      case ok2: True
      show thesis
      proof (cases "r_ok (os (Suc (Suc ?k)))")
        case False
        then have "s' = copyByPathError os args (sys_close os ?i ?s3)"
          using assms ok1 ok2
          by (simp add: Copy_def sys_open_after sys_fstat_after status_def)
        then show thesis using False ok1 ok2
          by (intro that(3) [of ?i]) (simp_all add: copyByPathError_eq)
      next
        case ok3: True
        then have "Copy_fd os ?i ?j (st_size (r_stat (os (Suc ?k)))) args False ?s3 = Some s'"
          using assms ok1 ok2
          by (simp add: Copy_def sys_open_after sys_fstat_after status_def)
        then show thesis using ok1 ok2 ok3
          by (intro that(4) [of ?i ?j ?s3]) simp_all
      qed
    qed
  qed
qed

lemma Move_cases [consumes 2, case_names no_source no_stat no_dest no_dest_stat same_device cross_device]:
  assumes "Move os junk incoming s = Some s'"
      and "Args_ctor junk incoming s = (args, s0)"
  obtains
    t c where "\<not> r_ok (os (clock s0))"
      "trace s' = trace s0 @ [open_in args (- 1), Sys (SysRemove (Destination args)) c,
                              Complete (ResultCallback args) (Some t) False]"
  | i t c1 c2 where "0 \<le> i" "\<not> r_ok (os (Suc (clock s0)))"
      "trace s' = trace s0 @ [open_in args i, Sys (SysFstat i) (- 1), Sys (SysClose i) c1,
                              Sys (SysRemove (Destination args)) c2,
                              Complete (ResultCallback args) (Some t) False]"
  | i m t c1 c2 where "0 \<le> i" "\<not> r_ok (os (Suc (Suc (clock s0))))"
      "trace s' = trace s0 @ [open_in args i, Sys (SysFstat i) 0, open_out args m (- 1),
                              Sys (SysClose i) c1, Sys (SysRemove (Destination args)) c2,
                              Complete (ResultCallback args) (Some t) False]"
  | i j m t c1 c2 c3 where "0 \<le> i" "0 \<le> j" "\<not> r_ok (os (Suc (Suc (Suc (clock s0)))))"
      "trace s' = trace s0 @ [open_in args i, Sys (SysFstat i) 0, open_out args m j,
                              Sys (SysFstat j) (- 1), Sys (SysClose i) c1, Sys (SysClose j) c2,
                              Sys (SysRemove (Destination args)) c3,
                              Complete (ResultCallback args) (Some t) False]"
  | i j m c1 c2 c3 c4 where "0 \<le> i" "0 \<le> j"
      "r_ok (os (clock s0))" "r_ok (os (Suc (clock s0)))" "r_ok (os (Suc (Suc (clock s0))))"
      "r_ok (os (Suc (Suc (Suc (clock s0)))))"
      "st_dev (r_stat (os (Suc (clock s0)))) = st_dev (r_stat (os (Suc (Suc (Suc (clock s0))))))"
      "trace s' = trace s0 @ [open_in args i, Sys (SysFstat i) 0, open_out args m j,
                              Sys (SysFstat j) 0, Sys (SysClose i) c1, Sys (SysClose j) c2,
                              Sys (SysRemove (Destination args)) c3,
                              Sys (SysRename (Source args) (Destination args)) c4]
                  @ (if UpdateProgress args
                     then [Progress (ProgressCallback args)
                             (st_size (r_stat (os (Suc (clock s0)))))
                             (st_size (r_stat (os (Suc (clock s0)))))]
                     else [])
                  @ [Complete (ResultCallback args) None True]"
  | i j s4 where "0 \<le> i" "0 \<le> j"
      "r_ok (os (clock s0))" "r_ok (os (Suc (clock s0)))" "r_ok (os (Suc (Suc (clock s0))))"
      "r_ok (os (Suc (Suc (Suc (clock s0)))))"
      "st_dev (r_stat (os (Suc (clock s0)))) \<noteq> st_dev (r_stat (os (Suc (Suc (Suc (clock s0))))))"
      "trace s4 = trace s0 @ [open_in args i, Sys (SysFstat i) 0,
                              open_out args (st_mode (r_stat (os (Suc (clock s0))))) j,
                              Sys (SysFstat j) 0]"
      "Copy_fd os i j (st_size (r_stat (os (Suc (clock s0))))) args True s4 = Some s'"
proof -
  let ?k = "clock s0"
  let ?i = "int (r_val (os ?k))"
  let ?j = "int (r_val (os (Suc (Suc ?k))))"
  let ?s1 = "after os (SysOpen (Source args) [O_RDONLY, O_BINARY] None) s0"
  let ?s2 = "after os (SysFstat ?i) ?s1"
  let ?s3 = "after os (SysOpen (Destination args) [O_WRONLY, O_CREAT, O_TRUNC, O_BINARY]
                         (Some (st_mode (r_stat (os (Suc ?k)))))) ?s2"
  let ?s4 = "after os (SysFstat ?j) ?s3"
  note unf = Move_def sys_open_after sys_fstat_after status_def
  show thesis
  proof (cases "r_ok (os ?k)")
    case False
    then have "s' = moveError os args ?s1"
      using assms by (simp add: unf)
    then show thesis using False by (intro that(1)) (simp_all add: moveError_eq)
  next
    case ok1: True
    show thesis
    proof (cases "r_ok (os (Suc ?k))")
      case False
      then have "s' = moveError os args (sys_close os ?i ?s2)"
        using assms ok1 by (simp add: unf)
      then show thesis using False ok1
        by (intro that(2) [of ?i]) (simp_all add: moveError_eq)
    next
      case ok2: True
      show thesis
      proof (cases "r_ok (os (Suc (Suc ?k)))")
        case False
        then have "s' = moveError os args (sys_close os ?i ?s3)"
          using assms ok1 ok2 by (simp add: unf)
        then show thesis using False ok1 ok2
          by (intro that(3) [of ?i]) (simp_all add: moveError_eq)
      next
        case ok3: True
        show thesis
        proof (cases "r_ok (os (Suc (Suc (Suc ?k))))")
          case False
          then have "s' = moveError os args (sys_close os ?j (sys_close os ?i ?s4))"
            using assms ok1 ok2 ok3 by (simp add: unf)
          then show thesis using False ok1 ok2 ok3
            by (intro that(4) [of ?i ?j]) (simp_all add: moveError_eq)
        next
          case ok4: True
          show thesis
          proof (cases "st_dev (r_stat (os (Suc ?k))) = st_dev (r_stat (os (Suc (Suc (Suc ?k)))))")
            case True
            then have "s' = SendComplete args
                 (SendProgressUpdate args (st_size (r_stat (os (Suc ?k))))
                    (st_size (r_stat (os (Suc ?k))))
                    (sys_rename os (Source args) (Destination args)
                      (sys_remove os (Destination args)
                        (sys_close os ?j (sys_close os ?i ?s4)))))"
              using assms ok1 ok2 ok3 ok4 by (simp add: unf Let_def)
            then show thesis using True ok1 ok2 ok3 ok4
              by (intro that(5) [of ?i ?j]) (simp_all add: SendProgressUpdate_eq)
          next
            case False
            then have "Copy_fd os ?i ?j (st_size (r_stat (os (Suc ?k)))) args True ?s4 = Some s'"
              using assms ok1 ok2 ok3 ok4 by (simp add: unf Let_def)
            then show thesis using False ok1 ok2 ok3 ok4
              by (intro that(6) [of ?i ?j ?s4]) simp_all
          qed
        qed
      qed
    qed
  qed
qed

lemma Args_ctor_well_formed:
  assumes "well_formed incoming"
  shows "\<exists>args. Args_ctor junk incoming s = (args, s)
           \<and> UpdateProgress args = (3 < length incoming)
           \<and> ResultCallback args = Cast (arg_at incoming (if 3 < length incoming then 3 else 2))
           \<and> ResultCallback args \<noteq> None
           \<and> (UpdateProgress args \<longrightarrow> ProgressCallback args \<noteq> None)"
proof -
  have f: "IsFunction v \<Longrightarrow> Cast v \<noteq> None" for v by (cases v) simp_all
  show ?thesis
    using assms f [of "arg_at incoming 2"] f [of "arg_at incoming 3"]
    by (auto simp: well_formed_def Args_ctor_def Let_def)
qed

lemma Args_ctor_trace:
  assumes "Args_ctor junk incoming s = (args, s0)"
  shows "clock s0 = clock s \<and> errno s0 = errno s
         \<and> (\<exists>thr. trace s0 = trace s @ thr \<and> removes thr = [] \<and> \<not> failed_io thr
               \<and> opened thr = [] \<and> closed thr = [] \<and> completions thr = []
               \<and> progress_of thr = [] \<and> reads_of thr = [])"
  using assms
  by (auto simp: Args_ctor_def ThrowError_def Let_def split: if_splits)

lemma Copy_fd_shape:
  assumes "Copy_fd os fi fo z args rm s = Some s'"
  shows "\<exists>pre t b c. trace s' = trace s @ pre @ [Complete (ResultCallback args) t b]
           \<and> completions pre = [] \<and> closed pre = [fi, fo] \<and> opened pre = []
           \<and> b = (\<not> failed_io pre) \<and> (b \<longrightarrow> t = None)
           \<and> removes pre = (if failed_io pre then [(Destination args, c)]
                             else if rm then [(Source args, c)] else [])"
  using assms
proof (rule Copy_fd_cases)
  fix ex s1 levs
  assume le: "loop_events os args z (z sdiv 100) 0 0 s ex s1 levs"
    and ok: "ex = EndOfInput \<Longrightarrow>
           trace s' = trace s1 @ success_tail os args fi fo z rm (clock s1)"
    and bad: "ex \<noteq> EndOfInput \<Longrightarrow>
           trace s' = trace s1 @ failure_tail os args fi fo (clock s1) (errno s1)
           \<and> clock s' = Suc (Suc (Suc (clock s1)))
           \<and> errno s' = errno_after os (clock s1) 3 (errno s1)"
  have t1: "trace s1 = trace s @ levs" and l: "completions levs = []" "closed levs = []"
    "opened levs = []" "removes levs = []"
    using le by (simp_all add: loop_events_def)
  note nf = loop_not_failed [OF le]
  show ?thesis
  proof (cases "ex = EndOfInput")
    case True
    let ?pre = "levs @ butlast (success_tail os args fi fo z rm (clock s1))"
    have "trace s' = trace s @ ?pre @ [Complete (ResultCallback args) None True]"
      using ok True t1 by (simp add: success_tail_def butlast_append)
    moreover have "completions ?pre = []" "closed ?pre = [fi, fo]" "opened ?pre = []"
      "\<not> failed_io ?pre"
      "removes ?pre = (if rm then [(Source args, status os (Suc (Suc (Suc (clock s1)))))] else [])"
      using l nf True by (simp_all add: success_tail_def butlast_append)
    ultimately show ?thesis
      apply (intro exI [of _ ?pre] exI [of _ None] exI [of _ True]
                   exI [of _ "status os (Suc (Suc (Suc (clock s1))))"])
      by simp
  next
    case False
    let ?pre = "levs @ butlast (failure_tail os args fi fo (clock s1) (errno s1))"
    let ?t = "Some (strerror (errno_after os (clock s1) 3 (errno s1)))"
    have "trace s' = trace s @ ?pre @ [Complete (ResultCallback args) ?t False]"
      using bad False t1 by (simp add: failure_tail_def)
    moreover have "completions ?pre = []" "closed ?pre = [fi, fo]" "opened ?pre = []"
      "failed_io ?pre"
      "removes ?pre = [(Destination args, status os (Suc (Suc (clock s1))))]"
      using l nf False by (simp_all add: failure_tail_def)
    ultimately show ?thesis
      apply (intro exI [of _ ?pre] exI [of _ ?t] exI [of _ False]
                   exI [of _ "status os (Suc (Suc (clock s1)))"])
      by simp
  qed
qed

text \<open>The shape of a run of an exported function that returns.\<close>

lemma exported_run_shape:
  assumes f: "f = Copy \<or> f = Move"
      and run: "f os junk incoming s = Some s'"
      and wf: "well_formed incoming"
  shows "\<exists>pre g t b.
           trace s' = trace s @ pre @ [Complete (Some g) t b]
         \<and> Cast (arg_at incoming (if 3 < length incoming then 3 else 2)) = Some g
         \<and> completions pre = []
         \<and> closed pre = opened pre"
proof -
  from Args_ctor_well_formed [OF wf, of junk s] obtain args where
    a: "Args_ctor junk incoming s = (args, s)"
    and rc: "ResultCallback args = Cast (arg_at incoming (if 3 < length incoming then 3 else 2))"
      "ResultCallback args \<noteq> None"
    by blast
  from rc(2) obtain g where "ResultCallback args = Some g" by blast
  with rc(1) have g: "ResultCallback args = Some g"
      "Cast (arg_at incoming (if 3 < length incoming then 3 else 2)) = Some g"
    by simp_all
  have fin: "\<exists>pre g t b.
           trace s' = trace s @ pre @ [Complete (Some g) t b]
         \<and> Cast (arg_at incoming (if 3 < length incoming then 3 else 2)) = Some g
         \<and> completions pre = [] \<and> closed pre = opened pre"
    if "trace s' = trace s @ evs" "evs \<noteq> []"
      "map fst (complete_ev (last evs)) = [ResultCallback args]"
      "completions (butlast evs) = []" "closed (butlast evs) = opened (butlast evs)" for evs
  proof -
    from that(3) obtain t b where "last evs = Complete (Some g) t b"
      using g by (cases "last evs") auto
    with that(2) have "evs = butlast evs @ [Complete (Some g) t b]"
      by (metis append_butlast_last_id)
    with that(1,4,5) g show ?thesis by metis
  qed
  from f show ?thesis
  proof
    assume "f = Copy"
    with run have "Copy os junk incoming s = Some s'" by simp
    from this a show ?thesis
    proof (cases rule: Copy_cases)
      case (no_source t c)
      then show ?thesis
        by (intro fin [of "[open_in args (- 1), Sys (SysRemove (Destination args)) c,
                            Complete (ResultCallback args) (Some t) False]"]) simp_all
    next
      case (no_stat i t c1 c2)
      then show ?thesis
        by (intro fin [of "[open_in args i, Sys (SysFstat i) (- 1), Sys (SysClose i) c1,
                            Sys (SysRemove (Destination args)) c2,
                            Complete (ResultCallback args) (Some t) False]"]) simp_all
    next
      case (no_dest i m t c1 c2)
      then show ?thesis
        by (intro fin [of "[open_in args i, Sys (SysFstat i) 0, open_out args m (- 1),
                            Sys (SysClose i) c1, Sys (SysRemove (Destination args)) c2,
                            Complete (ResultCallback args) (Some t) False]"])
           simp_all
    next
      case (copy i j s3)
      from Copy_fd_shape [OF copy(4)] obtain pre t b where
        p: "trace s' = trace s3 @ pre @ [Complete (ResultCallback args) t b]"
        "completions pre = []" "closed pre = [i, j]" "opened pre = []"
        by blast
      show ?thesis
        using copy(1-3) p
        by (intro fin [of "[open_in args i, Sys (SysFstat i) 0,
                            open_out args (st_mode (r_stat (os (Suc (clock s))))) j] @ pre
                            @ [Complete (ResultCallback args) t b]"])
           (simp_all add: butlast_append)
    qed
  next
    assume "f = Move"
    with run have "Move os junk incoming s = Some s'" by simp
    from this a show ?thesis
    proof (cases rule: Move_cases)
      case (no_source t c)
      then show ?thesis
        by (intro fin [of "[open_in args (- 1), Sys (SysRemove (Destination args)) c,
                            Complete (ResultCallback args) (Some t) False]"]) simp_all
    next
      case (no_stat i t c1 c2)
      then show ?thesis
        by (intro fin [of "[open_in args i, Sys (SysFstat i) (- 1), Sys (SysClose i) c1,
                            Sys (SysRemove (Destination args)) c2,
                            Complete (ResultCallback args) (Some t) False]"]) simp_all
    next
      case (no_dest i m t c1 c2)
      then show ?thesis
        by (intro fin [of "[open_in args i, Sys (SysFstat i) 0, open_out args m (- 1),
                            Sys (SysClose i) c1, Sys (SysRemove (Destination args)) c2,
                            Complete (ResultCallback args) (Some t) False]"])
           simp_all
    next
      case (no_dest_stat i j m t c1 c2 c3)
      then show ?thesis
        by (intro fin [of "[open_in args i, Sys (SysFstat i) 0, open_out args m j,
                            Sys (SysFstat j) (- 1), Sys (SysClose i) c1, Sys (SysClose j) c2,
                            Sys (SysRemove (Destination args)) c3,
                            Complete (ResultCallback args) (Some t) False]"])
           simp_all
    next
      case (same_device i j m c1 c2 c3 c4)
      then show ?thesis
        by (intro fin [of "[open_in args i, Sys (SysFstat i) 0, open_out args m j,
                              Sys (SysFstat j) 0, Sys (SysClose i) c1, Sys (SysClose j) c2,
                              Sys (SysRemove (Destination args)) c3,
                              Sys (SysRename (Source args) (Destination args)) c4]
                  @ (if UpdateProgress args
                     then [Progress (ProgressCallback args)
                             (st_size (r_stat (os (Suc (clock s)))))
                             (st_size (r_stat (os (Suc (clock s)))))]
                     else [])
                  @ [Complete (ResultCallback args) None True]"])
           (simp_all add: butlast_append)
    next
      case (cross_device i j s4)
      from Copy_fd_shape [OF cross_device(9)] obtain pre t b where
        p: "trace s' = trace s4 @ pre @ [Complete (ResultCallback args) t b]"
        "completions pre = []" "closed pre = [i, j]" "opened pre = []"
        by blast
      show ?thesis
        using cross_device(1,2,8) p
        by (intro fin [of "[open_in args i, Sys (SysFstat i) 0,
                            open_out args (st_mode (r_stat (os (Suc (clock s))))) j,
                            Sys (SysFstat j) 0] @ pre
                            @ [Complete (ResultCallback args) t b]"])
           (simp_all add: butlast_append)
    qed
  qed
qed

text \<open>When the runs return: every write that succeeds accepts at least one byte, and from
  some call on no response delivers data.\<close>

lemma copy_loop_returns:
  assumes w: "\<forall>k\<ge>clock s. r_ok (os k) \<longrightarrow> 0 < r_val (os k)"
      and e: "\<forall>k\<ge>N. r_ok (os k) \<longrightarrow> r_data (os k) = []"
  shows "\<exists>y. copy_loop os args fd_in fd_out inputSize t p a s = Some y"
  using w
proof (induction "N - clock s" arbitrary: s p a rule: less_induct)
  case less
  obtain n buf s1 where rd: "sys_read os fd_in BUFFER_SIZE s = (n, buf, s1)"
    by (cases "sys_read os fd_in BUFFER_SIZE s")
  note r = sys_read_eq [OF rd]
  show ?case
  proof (cases "0 < n")
    case False
    then show ?thesis using rd by (subst copy_loop.simps) simp
  next
    case True
    then have "r_ok (os (clock s))" "r_data (os (clock s)) \<noteq> []"
      using r(1) by (auto split: if_splits)
    then have early: "clock s < N" using e by (cases "clock s < N") auto
    have w1: "\<forall>k\<ge>clock s1. r_ok (os k) \<longrightarrow> 0 < r_val (os k)"
      using less.prems r(3) by simp
    from doWrite_returns [OF w1] obtain wr s2 where
      dw: "doWrite os fd_out buf s1 = Some (wr, s2)" by fastforce
    from doWrite_post [OF dw] have c2: "clock s1 \<le> clock s2" by auto
    show ?thesis
    proof (cases "wr = - 1")
      case True
      then show ?thesis using rd dw \<open>0 < n\<close> by (subst copy_loop.simps) simp
    next
      case False
      let ?s3 = "if t < a + n then SendProgressUpdate args (p + n) inputSize s2 else s2"
      let ?a' = "if t < a + n then 0 else a + n"
      have c3: "clock s < clock ?s3" using c2 r(3) by (simp add: SendProgressUpdate_eq)
      then have m: "N - clock ?s3 < N - clock s" using early by simp
      have w3: "\<forall>k\<ge>clock ?s3. r_ok (os k) \<longrightarrow> 0 < r_val (os k)"
        using less.prems c3 by simp
      from less.hyps [OF m w3] obtain y where
        "copy_loop os args fd_in fd_out inputSize t (p + n) ?a' ?s3 = Some y" by blast
      then show ?thesis
        using rd dw \<open>0 < n\<close> False by (subst copy_loop.simps) (auto split: if_splits)
    qed
  qed
qed

lemma Copy_fd_returns:
  assumes "\<forall>k\<ge>clock s. r_ok (os k) \<longrightarrow> 0 < r_val (os k)"
      and "\<forall>k\<ge>N. r_ok (os k) \<longrightarrow> r_data (os k) = []"
  shows "\<exists>s'. Copy_fd os fd_in fd_out inputSize args rm s = Some s'"
proof -
  from copy_loop_returns [OF assms] obtain ex s1 where
    "copy_loop os args fd_in fd_out inputSize (inputSize sdiv 100) 0 0 s = Some (ex, s1)"
    by fastforce
  then show ?thesis by (simp add: Copy_fd_def Let_def)
qed

lemma Copy_returns:
  assumes w: "\<forall>k\<ge>clock s. r_ok (os k) \<longrightarrow> 0 < r_val (os k)"
      and e: "\<forall>k\<ge>N. r_ok (os k) \<longrightarrow> r_data (os k) = []"
  shows "\<exists>s'. Copy os junk incoming s = Some s'"
proof -
  obtain args s0 where a: "Args_ctor junk incoming s = (args, s0)"
    by (cases "Args_ctor junk incoming s")
  from Args_ctor_trace [OF a] have c0: "clock s0 = clock s" by simp
  let ?k = "clock s0"
  note unf = Copy_def sys_open_after sys_fstat_after status_def
  have cp: "\<exists>s'. Copy_fd os i j z args False s3 = Some s'" if "clock s \<le> clock s3" for i j z s3
    using w that by (intro Copy_fd_returns [OF _ e]) simp
  show ?thesis
  proof (cases "r_ok (os ?k) \<and> r_ok (os (Suc ?k)) \<and> r_ok (os (Suc (Suc ?k)))")
    case True
    then show ?thesis using a c0 cp by (simp add: unf)
  next
    case False
    then consider "\<not> r_ok (os ?k)" | "r_ok (os ?k)" "\<not> r_ok (os (Suc ?k))"
      | "r_ok (os ?k)" "r_ok (os (Suc ?k))" "\<not> r_ok (os (Suc (Suc ?k)))"
      by blast
    then show ?thesis
      by cases (use a in \<open>simp_all add: unf\<close>)
  qed
qed

lemma Move_returns:
  assumes w: "\<forall>k\<ge>clock s. r_ok (os k) \<longrightarrow> 0 < r_val (os k)"
      and e: "\<forall>k\<ge>N. r_ok (os k) \<longrightarrow> r_data (os k) = []"
  shows "\<exists>s'. Move os junk incoming s = Some s'"
proof -
  obtain args s0 where a: "Args_ctor junk incoming s = (args, s0)"
    by (cases "Args_ctor junk incoming s")
  from Args_ctor_trace [OF a] have c0: "clock s0 = clock s" by simp
  let ?k = "clock s0"
  note unf = Move_def sys_open_after sys_fstat_after status_def
  have cp: "\<exists>s'. Copy_fd os i j z args True s3 = Some s'" if "clock s \<le> clock s3" for i j z s3
    using w that by (intro Copy_fd_returns [OF _ e]) simp
  show ?thesis
  proof (cases "r_ok (os ?k) \<and> r_ok (os (Suc ?k)) \<and> r_ok (os (Suc (Suc ?k)))
                \<and> r_ok (os (Suc (Suc (Suc ?k))))")
    case True
    show ?thesis
    proof (cases "st_dev (r_stat (os (Suc ?k))) = st_dev (r_stat (os (Suc (Suc (Suc ?k)))))")
      case same: True
      then show ?thesis using True a by (simp add: unf Let_def)
    next
      case False
      then show ?thesis using True a c0 cp by (simp add: unf Let_def)
    qed
  next
    case False
    then consider "\<not> r_ok (os ?k)" | "r_ok (os ?k)" "\<not> r_ok (os (Suc ?k))"
      | "r_ok (os ?k)" "r_ok (os (Suc ?k))" "\<not> r_ok (os (Suc (Suc ?k)))"
      | "r_ok (os ?k)" "r_ok (os (Suc ?k))" "r_ok (os (Suc (Suc ?k)))"
        "\<not> r_ok (os (Suc (Suc (Suc ?k))))"
      by blast
    then show ?thesis
      by cases (use a in \<open>simp_all add: unf\<close>)
  qed
qed

text \<open>
  C9. Every run of \<open>Copy\<close> or \<open>Move\<close> on a call that passes the argument checks, when
  it returns, has made exactly one call of the result callback that was passed, as its
  very last event; before it, \<open>close\<close> was called on exactly the descriptors that
  \<open>open\<close> had returned, once each and in the order of opening. The run does return when
  every write that succeeds accepts at least one byte and the source comes to an end.
\<close>

theorem descriptors_closed_once_then_one_completion:
  assumes f: "f = Copy \<or> f = Move"
      and wf: "well_formed incoming"
  shows "(\<forall>s'. f os junk incoming s = Some s' \<longrightarrow>
            (\<exists>pre g t b.
               trace s' = trace s @ pre @ [Complete (Some g) t b]
             \<and> Cast (arg_at incoming (if 3 < length incoming then 3 else 2)) = Some g
             \<and> completions pre = []
             \<and> closed pre = opened pre))
         \<and> ((\<forall>k\<ge>clock s. r_ok (os k) \<longrightarrow> 0 < r_val (os k))
              \<and> (\<exists>N. \<forall>k\<ge>N. r_ok (os k) \<longrightarrow> r_data (os k) = [])
             \<longrightarrow> (\<exists>s'. f os junk incoming s = Some s'))"
proof (intro conjI allI impI)
  fix s'
  assume "f os junk incoming s = Some s'"
  with f show "\<exists>pre g t b.
               trace s' = trace s @ pre @ [Complete (Some g) t b]
             \<and> Cast (arg_at incoming (if 3 < length incoming then 3 else 2)) = Some g
             \<and> completions pre = []
             \<and> closed pre = opened pre"
    using wf by (rule exported_run_shape)
next
  assume "(\<forall>k\<ge>clock s. r_ok (os k) \<longrightarrow> 0 < r_val (os k))
          \<and> (\<exists>N. \<forall>k\<ge>N. r_ok (os k) \<longrightarrow> r_data (os k) = [])"
  then obtain N where w: "\<forall>k\<ge>clock s. r_ok (os k) \<longrightarrow> 0 < r_val (os k)"
    and e: "\<forall>k\<ge>N. r_ok (os k) \<longrightarrow> r_data (os k) = []"
    by blast
  from f show "\<exists>s'. f os junk incoming s = Some s'"
    using Copy_returns [OF w e] Move_returns [OF w e] by blast
qed

text \<open>
  C5, amended. A \<open>Move\<close> across devices that returns has called \<open>remove\<close> exactly once:
  on the source when no read or write of the copy failed, on the destination otherwise.
  So \<open>remove\<close> is called on the source if and only if the copy phase completes without
  error; its return value \<open>c\<close> is not looked at.
\<close>

theorem cross_device_move_removes_source_iff_copied:
  assumes run: "Move os junk incoming s = Some s'"
      and a: "Args_ctor junk incoming s = (args, s0)"
      and tr: "trace s' = trace s @ evs"
      and x: "cross_device os (clock s)"
  shows "(\<exists>c. removes evs = [(if failed_io evs then Destination args else Source args, c)])
         \<and> (Source args \<noteq> Destination args \<longrightarrow>
               (Source args \<in> fst ` set (removes evs)) = (\<not> failed_io evs))"
proof -
  from Args_ctor_trace [OF a] obtain thr where
    c0: "clock s0 = clock s" and
    thr: "trace s0 = trace s @ thr" "removes thr = []" "\<not> failed_io thr"
    by blast
  have "\<exists>c. removes evs = [(if failed_io evs then Destination args else Source args, c)]"
    using run a
  proof (cases rule: Move_cases)
    case (cross_device i j s4)
    from Copy_fd_shape [OF cross_device(9)] obtain pre t b c where
      p: "trace s' = trace s4 @ pre @ [Complete (ResultCallback args) t b]"
      "removes pre = (if failed_io pre then [(Destination args, c)]
                      else if True then [(Source args, c)] else [])"
      by blast
    have "evs = thr @ [open_in args i, Sys (SysFstat i) 0,
                       open_out args (st_mode (r_stat (os (Suc (clock s0))))) j,
                       Sys (SysFstat j) 0] @ pre @ [Complete (ResultCallback args) t b]"
      using tr p(1) cross_device(8) thr(1) by simp
    then have "removes evs = removes pre" "failed_io evs = failed_io pre"
      using thr by simp_all
    with p(2) show ?thesis by auto
  qed (use x c0 in \<open>simp_all add: cross_device_def\<close>)
  then show ?thesis by auto
qed

lemma Copy_fd_success_progress:
  assumes run: "Copy_fd os fi fo z args rm s3 = Some s'"
      and tr: "trace s' = trace s3 @ cevs"
      and ch: "UpdateProgress args"
      and nf: "\<not> failed_io cevs"
  shows "progress_of cevs \<noteq> [] \<and> last (progress_of cevs) = (z, z)
         \<and> (sum_list (reads_of cevs) \<le> z \<longrightarrow> sorted (map fst (progress_of cevs)))"
proof -
  let ?N = "spec_notifications (z sdiv 100) 0 0 (reads_of cevs)"
  have "chunks cevs = reads_of cevs"
    using no_failed_write [OF nf] by (simp add: chunks_def)
  with Copy_fd_progress [OF run tr] ch nf
  have p: "progress_of cevs = map (\<lambda>d. (d, z)) ?N @ [(z, z)]" by simp
  have pos: "\<And>n. n \<in> set (reads_of cevs) \<Longrightarrow> 0 < n" by (rule reads_pos)
  have m: "map fst (progress_of cevs) = ?N @ [z]"
    unfolding p by (simp add: comp_def)
  have "sorted (?N @ [z])" if "sum_list (reads_of cevs) \<le> z"
  proof -
    have "d \<le> z" if "d \<in> set ?N" for d
      using spec_notifications_bounds [OF pos that] \<open>sum_list (reads_of cevs) \<le> z\<close> by simp
    then show ?thesis
      using spec_notifications_sorted [OF pos, of "reads_of cevs" "z sdiv 100" 0 0]
      by (auto simp: sorted_append)
  qed
  with p m show ?thesis by simp
qed

text \<open>
  C6, amended. A \<open>Copy\<close> or \<open>Move\<close> with a progress callback that ends in the success
  completion has sent a last notification \<open>(z, z)\<close>, where \<open>z\<close> is the size \<open>fstat\<close>
  reported for the source; and the \<open>done\<close> values are non-decreasing when the bytes
  read do not exceed \<open>z\<close>.
\<close>

theorem progress_nondecreasing_when_size_covers_reads:
  assumes f: "f = Copy \<or> f = Move"
      and run: "f os junk incoming s = Some s'"
      and tr: "trace s' = trace s @ evs"
      and wf: "well_formed incoming"
      and ch: "3 < length incoming"
      and ok: "(None, True) \<in> snd ` set (completions evs)"
      and z: "z = st_size (r_stat (os (Suc (clock s))))"
  shows "progress_of evs \<noteq> [] \<and> last (progress_of evs) = (z, z)
         \<and> (sum_list (reads_of evs) \<le> z \<longrightarrow> sorted (map fst (progress_of evs)))"
proof -
  from Args_ctor_well_formed [OF wf, of junk s] ch obtain args where
    a: "Args_ctor junk incoming s = (args, s)" and up: "UpdateProgress args"
    by auto
  have via_copy: ?thesis
    if c: "Copy_fd os i j z args rm s3 = Some s'"
      and t3: "trace s3 = trace s @ pfx"
      and pfx: "progress_of pfx = []" "reads_of pfx = []" "completions pfx = []"
    for i j rm s3 pfx
  proof -
    from Copy_fd_shape [OF c] obtain pre t b where
      p: "trace s' = trace s3 @ pre @ [Complete (ResultCallback args) t b]"
        "completions pre = []" "b = (\<not> failed_io pre)"
      by blast
    let ?cevs = "pre @ [Complete (ResultCallback args) t b]"
    have evs: "evs = pfx @ ?cevs" using tr p(1) t3 by simp
    then have "b" using ok pfx p(2) by simp
    then have nf: "\<not> failed_io ?cevs" using p(3) by simp
    from Copy_fd_success_progress [OF c p(1) up nf] show ?thesis
      unfolding evs using pfx by simp
  qed
  from f show ?thesis
  proof
    assume "f = Copy"
    with run have "Copy os junk incoming s = Some s'" by simp
    from this a show ?thesis
    proof (cases rule: Copy_cases)
      case (copy i j s3)
      show ?thesis
        using copy(4) [folded z] copy(3) by (rule via_copy) simp_all
    qed (use ok tr in auto)
  next
    assume "f = Move"
    with run have "Move os junk incoming s = Some s'" by simp
    from this a show ?thesis
    proof (cases rule: Move_cases)
      case (same_device i j m c1 c2 c3 c4)
      then show ?thesis using tr up z by simp
    next
      case (cross_device i j s4)
      show ?thesis
        using cross_device(9) [folded z] cross_device(8) by (rule via_copy) simp_all
    qed (use ok tr in auto)
  qed
qed

text \<open>The runs that end in a failure, whatever the exit: a call of \<open>open\<close>, \<open>fstat\<close>,
  \<open>read\<close> or \<open>write\<close> returned \<open>-1\<close>, the descriptors opened so far are closed,
  \<open>remove\<close> is called on the destination, and the completion carries the text of
  \<open>errno\<close> as it is then.\<close>

lemma failed_io_ev_cause: "failed_io_ev e \<Longrightarrow> \<exists>c. e = Sys c (- 1) \<and> cause c"
  by (cases e rule: failed_io_ev.cases) auto

lemma errno_after_call [simp]:
  "errno (after os c s) = errno_next os (clock s) (errno s)"
  by (cases c) (simp_all add: after_def sys_def Let_def errno_next_def)

lemma errno_next_fail: "\<not> r_ok (os k) \<Longrightarrow> errno_next os k e = r_errno (os k)"
  by (simp add: errno_next_def)

lemma retval_fail: "\<not> r_ok r \<Longrightarrow> retval c r = - 1"
  by (cases c) simp_all

lemma errno_after_snoc:
  "errno_after os k (Suc n) e = errno_next os (k + n) (errno_after os k n e)"
  by (induction n arbitrary: k e) simp_all

lemma closes_proj [simp]:
  "completions (closes fds rs) = []"
  "removes (closes fds rs) = []"
  by (induction fds rs rule: closes.induct) simp_all

lemma Copy_fd_failure:
  assumes run: "Copy_fd os fi fo z args rm s = Some s'"
      and tr: "trace s' = trace s @ evs"
      and fails: "(g, Some t, False) \<in> set (completions evs)"
  shows "\<exists>pre c r1 r2 r k.
           evs = pre @ [Sys c (- 1), Sys (SysClose fi) r1, Sys (SysClose fo) r2,
                        Sys (SysRemove (Destination args)) r,
                        Complete (ResultCallback args) (Some t) False]
         \<and> cause c \<and> completions pre = [] \<and> closed pre = [] \<and> removes pre = []
         \<and> opened pre = []
         \<and> clock s' = k + 4 \<and> \<not> r_ok (os k)
         \<and> errno s' = errno_after os (k + 1) 3 (r_errno (os k))
         \<and> t = strerror (errno s')"
  using run
proof (rule Copy_fd_cases)
  fix ex s1 levs
  assume le: "loop_events os args z (z sdiv 100) 0 0 s ex s1 levs"
    and ok: "ex = EndOfInput \<Longrightarrow>
           trace s' = trace s1 @ success_tail os args fi fo z rm (clock s1)"
    and bad: "ex \<noteq> EndOfInput \<Longrightarrow>
           trace s' = trace s1 @ failure_tail os args fi fo (clock s1) (errno s1)
           \<and> clock s' = Suc (Suc (Suc (clock s1)))
           \<and> errno s' = errno_after os (clock s1) 3 (errno s1)"
  have t1: "trace s1 = trace s @ levs" and l: "completions levs = []" "closed levs = []"
    "opened levs = []" "removes levs = []" "levs \<noteq> []"
    using le by (simp_all add: loop_events_def)
  have ex: "ex \<noteq> EndOfInput"
  proof
    assume e: "ex = EndOfInput"
    with ok tr t1 have "evs = levs @ success_tail os args fi fo z rm (clock s1)"
      by simp
    with fails l show False by simp
  qed
  with bad tr t1 have evs: "evs = levs @ failure_tail os args fi fo (clock s1) (errno s1)"
    and ck: "clock s' = Suc (Suc (Suc (clock s1)))"
    and er: "errno s' = errno_after os (clock s1) 3 (errno s1)" by simp_all
  obtain k where k: "clock s1 = Suc k"
    using le by (cases "clock s1") (simp_all add: loop_events_def)
  have en: "errno s1 = r_errno (os k)" "\<not> r_ok (os k)"
    using le ex k by (simp_all add: loop_events_def)
  from le ex have "failed_io_ev (last levs)" by (simp add: loop_events_def)
  then obtain c where c: "last levs = Sys c (- 1)" "cause c"
    using failed_io_ev_cause by blast
  have split: "levs = butlast levs @ [Sys c (- 1)]"
    using l(5) c(1) by (metis append_butlast_last_id)
  have b: "completions (butlast levs) = []" "closed (butlast levs) = []"
    "opened (butlast levs) = []" "removes (butlast levs) = []"
    using l(1-4) arg_cong [OF split, of completions] arg_cong [OF split, of closed]
      arg_cong [OF split, of opened] arg_cong [OF split, of removes]
    by simp_all
  have tx: "t = strerror (errno s')"
    using fails evs l er by simp
  have 1: "evs = butlast levs @ [Sys c (- 1), Sys (SysClose fi) (status os (clock s1)),
                        Sys (SysClose fo) (status os (Suc (clock s1))),
                        Sys (SysRemove (Destination args)) (status os (Suc (Suc (clock s1)))),
                        Complete (ResultCallback args) (Some t) False]"
    using evs tx er arg_cong [OF split, of "\<lambda>x. x @ failure_tail os args fi fo (clock s1) (errno s1)"]
    by (simp add: failure_tail_def)
  have 4: "clock s' = k + 4" using ck k by simp
  have 6: "errno s' = errno_after os (k + 1) 3 (r_errno (os k))"
    using er en k by simp
  show ?thesis
    apply (rule exI [of _ "butlast levs"])
    apply (rule exI [of _ c])
    apply (rule exI [of _ "status os (clock s1)"])
    apply (rule exI [of _ "status os (Suc (clock s1))"])
    apply (rule exI [of _ "status os (Suc (Suc (clock s1)))"])
    apply (rule exI [of _ k])
    using 1 b c(2) 4 6 tx en(2) by simp
qed

lemma copyByPathError_is_moveError: "copyByPathError os args s = moveError os args s"
  by (simp add: copyByPathError_def moveError_def)

lemma errno_after_1: "errno_after os k (Suc 0) e = errno_next os k e"
  by simp

lemma path_error_text:
  assumes s': "s' = moveError os args s2"
      and t2: "trace s2 = trace s @ pre @ Sys c (- 1) # closes (opened pre) rs"
      and len: "length rs = length (opened pre)"
      and ck: "clock s2 = Suc k + length rs"
      and er: "errno s2 = errno_after os (Suc k) (length rs) (r_errno (os k))"
      and c: "cause c" "completions pre = []" "closed pre = []" "removes pre = []"
        "\<not> r_ok (os k)"
      and tr: "trace s' = trace s @ evs"
      and fails: "(g, Some t, False) \<in> set (completions evs)"
  shows "\<exists>pre c rs r k.
           evs = pre @ Sys c (- 1) # closes (opened pre) rs
                   @ [Sys (SysRemove (Destination args)) r,
                      Complete (ResultCallback args) (Some t) False]
         \<and> cause c \<and> completions pre = [] \<and> closed pre = [] \<and> removes pre = []
         \<and> length rs = length (opened pre)
         \<and> clock s' = k + length rs + 2 \<and> \<not> r_ok (os k)
         \<and> errno s' = errno_after os (k + 1) (length rs + 1) (r_errno (os k))
         \<and> t = strerror (errno s')"
proof -
  have e: "errno s' = errno_after os (k + 1) (length rs + 1) (r_errno (os k))"
    using errno_after_snoc [of os "Suc k" "length rs" "r_errno (os k)"]
    by (simp add: s' moveError_eq ck er errno_after_1 del: errno_after.simps)
  have ev: "evs = pre @ Sys c (- 1) # closes (opened pre) rs
                   @ [Sys (SysRemove (Destination args)) (status os (clock s2)),
                      Complete (ResultCallback args) (Some (strerror (errno s'))) False]"
    using tr t2 by (simp add: s' moveError_eq)
  have tx: "t = strerror (errno s')"
    using fails c(2) by (simp add: ev)
  have k: "clock s' = k + length rs + 2"
    by (simp add: s' moveError_eq ck)
  show ?thesis
    using ev tx k e c len
    by (intro exI [of _ pre] exI [of _ c] exI [of _ rs] exI [of _ "status os (clock s2)"]
              exI [of _ k]) simp
qed

lemma failure_run_shape:
  assumes f: "f = Copy \<or> f = Move"
      and run: "f os junk incoming s = Some s'"
      and tr: "trace s' = trace s @ evs"
      and args: "Args_ctor junk incoming s = (args, s0)"
      and fails: "(g, Some t, False) \<in> set (completions evs)"
  shows "\<exists>pre c rs r k.
           evs = pre @ Sys c (- 1) # closes (opened pre) rs
                   @ [Sys (SysRemove (Destination args)) r,
                      Complete (ResultCallback args) (Some t) False]
         \<and> cause c \<and> completions pre = [] \<and> closed pre = [] \<and> removes pre = []
         \<and> length rs = length (opened pre)
         \<and> clock s' = k + length rs + 2 \<and> \<not> r_ok (os k)
         \<and> errno s' = errno_after os (k + 1) (length rs + 1) (r_errno (os k))
         \<and> t = strerror (errno s')"
proof -
  from Args_ctor_trace [OF args] obtain thr where
    c0: "clock s0 = clock s"
    and thr: "trace s0 = trace s @ thr" "removes thr = []" "opened thr = []" "closed thr = []"
      "completions thr = []"
    by blast
  let ?k = "clock s"
  let ?i = "int (r_val (os ?k))"
  let ?j = "int (r_val (os (Suc (Suc ?k))))"
  let ?m = "st_mode (r_stat (os (Suc ?k)))"
  let ?z = "st_size (r_stat (os (Suc ?k)))"
  let ?s1 = "after os (SysOpen (Source args) [O_RDONLY, O_BINARY] None) s0"
  let ?s2 = "after os (SysFstat ?i) ?s1"
  let ?s3 = "after os (SysOpen (Destination args) [O_WRONLY, O_CREAT, O_TRUNC, O_BINARY]
                         (Some ?m)) ?s2"
  let ?s4 = "after os (SysFstat ?j) ?s3"
  note pe = path_error_text [OF _ _ _ _ _ _ _ _ _ _ tr fails]
  have through_copy: ?thesis
    if cf: "Copy_fd os ?i ?j ?z args rm s3 = Some s'"
      and t3: "trace s3 = trace s @ before" "opened before = [?i, ?j]" "completions before = []"
        "closed before = []" "removes before = []"
    for rm s3 before
  proof -
    from Copy_fd_shape [OF cf] obtain evs' where e': "trace s' = trace s3 @ evs'"
      by blast
    with tr t3(1) have evs': "evs = before @ evs'" "trace s' = trace s3 @ evs'"
      by simp_all
    have "(g, Some t, False) \<in> set (completions evs')"
      using fails evs' t3 by simp
    from Copy_fd_failure [OF cf evs'(2) this] obtain pre c r1 r2 r k where
      p: "evs' = pre @ [Sys c (- 1), Sys (SysClose ?i) r1, Sys (SysClose ?j) r2,
                        Sys (SysRemove (Destination args)) r,
                        Complete (ResultCallback args) (Some t) False]"
        "cause c" "completions pre = []" "closed pre = []" "removes pre = []"
        "opened pre = []" "clock s' = k + 4" "\<not> r_ok (os k)"
        "errno s' = errno_after os (k + 1) 3 (r_errno (os k))" "t = strerror (errno s')"
      by blast
    show ?thesis
      using p evs' t3
      by (intro exI [of _ "before @ pre"] exI [of _ c] exI [of _ "[r1, r2]"] exI [of _ r]
              exI [of _ k]) (simp add: numeral_3_eq_3)
  qed
  have i0: "0 \<le> ?i" "0 \<le> ?j" by simp_all
  note unf = sys_open_after sys_fstat_after status_def retval_fail
             copyByPathError_is_moveError
  from f show ?thesis
  proof
    assume "f = Copy"
    with run have r: "Copy os junk incoming s = Some s'" by simp
    show ?thesis
    proof (cases "r_ok (os ?k)")
      case False
      then have st: "s' = moveError os args ?s1"
        using r args c0 by (simp add: Copy_def unf)
      show ?thesis
        using False thr c0
        by (intro pe [OF st, where pre = thr and c = "SysOpen (Source args) [O_RDONLY, O_BINARY] None"
  and rs = "[]" and k = ?k])
           (simp_all add: retval_fail errno_next_fail)
    next
      case ok1: True
      show ?thesis
      proof (cases "r_ok (os (Suc ?k))")
        case False
        then have st: "s' = moveError os args (sys_close os ?i ?s2)"
          using r args c0 ok1 by (simp add: Copy_def unf)
        show ?thesis
          using False ok1 thr c0
          by (intro pe [OF st, where pre = "thr @ [open_in args ?i]" and c = "SysFstat ?i"
  and rs = "[status os (Suc (Suc ?k))]" and k = "Suc ?k"])
             (simp_all add: retval_fail errno_next_fail)
      next
        case ok2: True
        show ?thesis
        proof (cases "r_ok (os (Suc (Suc ?k)))")
          case False
          then have st: "s' = moveError os args (sys_close os ?i ?s3)"
            using r args c0 ok1 ok2 by (simp add: Copy_def unf)
          show ?thesis
            using False ok1 ok2 thr c0
            by (intro pe [OF st, where pre = "thr @ [open_in args ?i, Sys (SysFstat ?i) 0]" and c = "SysOpen (Destination args) [O_WRONLY, O_CREAT, O_TRUNC, O_BINARY]
                               (Some ?m)"
  and rs = "[status os (Suc (Suc (Suc ?k)))]" and k = "Suc (Suc ?k)"])
               (simp_all add: retval_fail errno_next_fail)
        next
          case ok3: True
          then have cf: "Copy_fd os ?i ?j ?z args False ?s3 = Some s'"
            using r args c0 ok1 ok2 by (simp add: Copy_def unf)
          show ?thesis
            using ok1 ok2 ok3 thr c0
            by (intro through_copy [OF cf, where before = "thr @ [open_in args ?i, Sys (SysFstat ?i) 0, open_out args ?m ?j]"])
               simp_all
        qed
      qed
    qed
  next
    assume "f = Move"
    with run have r: "Move os junk incoming s = Some s'" by simp
    show ?thesis
    proof (cases "r_ok (os ?k)")
      case False
      then have st: "s' = moveError os args ?s1"
        using r args c0 by (simp add: Move_def unf)
      show ?thesis
        using False thr c0
        by (intro pe [OF st, where pre = thr and c = "SysOpen (Source args) [O_RDONLY, O_BINARY] None"
  and rs = "[]" and k = ?k])
           (simp_all add: retval_fail errno_next_fail)
    next
      case ok1: True
      show ?thesis
      proof (cases "r_ok (os (Suc ?k))")
        case False
        then have st: "s' = moveError os args (sys_close os ?i ?s2)"
          using r args c0 ok1 by (simp add: Move_def unf)
        show ?thesis
          using False ok1 thr c0
          by (intro pe [OF st, where pre = "thr @ [open_in args ?i]" and c = "SysFstat ?i"
  and rs = "[status os (Suc (Suc ?k))]" and k = "Suc ?k"])
             (simp_all add: retval_fail errno_next_fail)
      next
        case ok2: True
        show ?thesis
        proof (cases "r_ok (os (Suc (Suc ?k)))")
          case False
          then have st: "s' = moveError os args (sys_close os ?i ?s3)"
            using r args c0 ok1 ok2 by (simp add: Move_def unf)
          show ?thesis
            using False ok1 ok2 thr c0
            by (intro pe [OF st, where pre = "thr @ [open_in args ?i, Sys (SysFstat ?i) 0]" and c = "SysOpen (Destination args) [O_WRONLY, O_CREAT, O_TRUNC, O_BINARY]
                               (Some ?m)"
  and rs = "[status os (Suc (Suc (Suc ?k)))]" and k = "Suc (Suc ?k)"])
               (simp_all add: retval_fail errno_next_fail)
        next
          case ok3: True
          show ?thesis
          proof (cases "r_ok (os (Suc (Suc (Suc ?k))))")
            case False
            then have st: "s' = moveError os args (sys_close os ?j (sys_close os ?i ?s4))"
              using r args c0 ok1 ok2 ok3 by (simp add: Move_def unf)
            show ?thesis
              using False ok1 ok2 ok3 thr c0
              by (intro pe [OF st, where pre = "thr @ [open_in args ?i, Sys (SysFstat ?i) 0,
                                        open_out args ?m ?j]" and c = "SysFstat ?j"
  and rs = "[status os (Suc (Suc (Suc (Suc ?k)))),
                                status os (Suc (Suc (Suc (Suc (Suc ?k)))))]" and k = "Suc (Suc (Suc ?k))"])
                 (simp_all add: retval_fail errno_next_fail)
          next
            case ok4: True
            show ?thesis
            proof (cases "st_dev (r_stat (os (Suc ?k))) = st_dev (r_stat (os (Suc (Suc (Suc ?k)))))")
              case True
              then have sc: "s' = SendComplete args
                   (SendProgressUpdate args ?z ?z
                      (sys_rename os (Source args) (Destination args)
                        (sys_remove os (Destination args)
                          (sys_close os ?j (sys_close os ?i ?s4)))))"
                using r args c0 ok1 ok2 ok3 ok4 by (simp add: Move_def unf Let_def)
              let ?rest = "[open_in args ?i, Sys (SysFstat ?i) 0, open_out args ?m ?j,
                   Sys (SysFstat ?j) 0, Sys (SysClose ?i) (status os (Suc (Suc (Suc (Suc ?k))))),
                   Sys (SysClose ?j) (status os (Suc (Suc (Suc (Suc (Suc ?k)))))),
                   Sys (SysRemove (Destination args)) (status os (Suc (Suc (Suc (Suc (Suc (Suc ?k))))))),
                   Sys (SysRename (Source args) (Destination args))
                     (status os (Suc (Suc (Suc (Suc (Suc (Suc (Suc ?k))))))))]
                  @ (if UpdateProgress args then [Progress (ProgressCallback args) ?z ?z] else [])
                  @ [Complete (ResultCallback args) None True]"
              have "trace s' = trace s @ thr @ ?rest"
                using ok1 ok2 ok3 ok4 thr c0
                by (simp add: sc SendProgressUpdate_eq status_def)
              with tr have "evs = thr @ ?rest" by simp
              moreover have "completions ?rest = [(ResultCallback args, None, True)]"
                by simp
              ultimately have "completions evs = [(ResultCallback args, None, True)]"
                using thr by simp
              with fails show ?thesis by simp
            next
              case False
              then have cf: "Copy_fd os ?i ?j ?z args True ?s4 = Some s'"
                using r args c0 ok1 ok2 ok3 ok4 by (simp add: Move_def unf Let_def)
              show ?thesis
                using ok1 ok2 ok3 ok4 thr c0
                by (intro through_copy [OF cf, where before = "thr @ [open_in args ?i, Sys (SysFstat ?i) 0, open_out args ?m ?j,
                              Sys (SysFstat ?j) 0]"])
                   simp_all
            qed
          qed
        qed
      qed
    qed
  qed
qed

section \<open>Runs on concrete operating systems\<close>

text \<open>
  C1. A same-device \<open>Move\<close> whose \<open>rename\<close> fails: the return value of \<open>rename\<close>
  is not looked at, the progress notification and the success completion \<open>(null, true)\<close>
  follow it, and no failure completion is emitted.
\<close>

theorem Move_reports_success_when_rename_fails:
  "Move rename_fails False progress_call start =
     Some \<lparr>clock = 8, errno = 13,
            trace =
              [Sys (SysOpen ''a'' [O_RDONLY, O_BINARY] None) 3,
               Sys (SysFstat 3) 0,
               Sys (SysOpen ''b'' [O_WRONLY, O_CREAT, O_TRUNC, O_BINARY] (Some 420)) 4,
               Sys (SysFstat 4) 0,
               Sys (SysClose 3) 0,
               Sys (SysClose 4) 0,
               Sys (SysRemove ''b'') 0,
               Sys (SysRename ''a'' ''b'') (- 1),
               Progress (Some 6) 5 5,
               Complete (Some 7) None True]\<rparr>"
  by (simp add: Move_def rename_fails_def progress_call_def resp_defs call_defs cb_defs
        arg_defs Let_def split del: if_split cong: prod.case_cong_weak)

text \<open>
  C2. \<open>Copy\<close> or \<open>Move\<close> called with the two paths only: the constructor throws and
  returns, and the function goes on with the members the constructor left empty. It calls
  \<open>open\<close> and \<open>remove\<close> on the empty path and then invokes the result callback through
  a handle that was never assigned.
\<close>

theorem Copy_goes_on_after_argument_error:
  "Copy nothing_there False short_call start =
     Some \<lparr>clock = 2, errno = 2,
            trace =
              [Throw ''Not enough arguments'',
               Sys (SysOpen [] [O_RDONLY, O_BINARY] None) (- 1),
               Sys (SysRemove []) (- 1),
               Complete None (Some (strerror 2)) False]\<rparr>
   \<and> Move nothing_there False short_call start =
     Some \<lparr>clock = 2, errno = 2,
            trace =
              [Throw ''Not enough arguments'',
               Sys (SysOpen [] [O_RDONLY, O_BINARY] None) (- 1),
               Sys (SysRemove []) (- 1),
               Complete None (Some (strerror 2)) False]\<rparr>"
  by (simp add: Copy_def Move_def copyByPathError_def moveError_def nothing_there_def
        short_call_def resp_defs call_defs cb_defs arg_defs Let_def
        split del: if_split cong: prod.case_cong_weak)

text \<open>
  C4. \<open>Copy\<close> and \<open>Move\<close> of a source that does not exist onto a destination that does:
  the destination was never opened by the operation, and it is removed all the same.
\<close>

theorem path_error_removes_existing_destination:
  "Copy source_missing False plain_call start =
     Some \<lparr>clock = 2, errno = 2,
            trace =
              [Sys (SysOpen ''a'' [O_RDONLY, O_BINARY] None) (- 1),
               Sys (SysRemove ''b'') 0,
               Complete (Some 7) (Some (strerror 2)) False]\<rparr>
   \<and> Move source_missing False plain_call start =
     Some \<lparr>clock = 2, errno = 2,
            trace =
              [Sys (SysOpen ''a'' [O_RDONLY, O_BINARY] None) (- 1),
               Sys (SysRemove ''b'') 0,
               Complete (Some 7) (Some (strerror 2)) False]\<rparr>"
  by (simp add: Copy_def Move_def copyByPathError_def moveError_def source_missing_def
        plain_call_def resp_defs call_defs cb_defs arg_defs Let_def
        split del: if_split cong: prod.case_cong_weak)


lemma plain_call_args: "Args_ctor False plain_call start = (plain_args, start)"
  by (simp add: plain_call_def plain_args_def arg_defs)

lemma run_copy_tiny: "Copy copy_tiny False progress_call start = Some copy_tiny_end"
  by (simp add: Copy_def Copy_fd_def copyByFdError_def copyByPathError_def copy_loop.simps
        doWrite.simps BUFFER_SIZE_def copy_tiny_def copy_tiny_end_def progress_call_def
        resp_defs call_defs cb_defs arg_defs Let_def
        split del: if_split cong: prod.case_cong_weak bind_weak_cong)

lemma run_move_across: "Move move_across False plain_call start = Some move_across_end"
  by (simp add: Move_def Copy_fd_def copyByFdError_def moveError_def copy_loop.simps
        doWrite.simps BUFFER_SIZE_def move_across_def move_across_end_def plain_call_def
        resp_defs call_defs cb_defs arg_defs Let_def
        split del: if_split cong: prod.case_cong_weak bind_weak_cong)

text \<open>
  C5. As stated the claim fails: in this move across devices the copy phase completes
  without error, \<open>remove\<close> of the source returns \<open>-1\<close>, so that the source is still
  there, and the success completion follows.
\<close>

theorem Move_leaves_source_when_remove_fails:
  "Move remove_source_fails False plain_call start =
     Some \<lparr>clock = 11, errno = 30,
            trace =
              [Sys (SysOpen ''a'' [O_RDONLY, O_BINARY] None) 3, Sys (SysFstat 3) 0,
               Sys (SysOpen ''b'' [O_WRONLY, O_CREAT, O_TRUNC, O_BINARY] (Some 420)) 4,
               Sys (SysFstat 4) 0,
               Sys (SysRead 3 16384) 2, Sys (SysWrite 4 [1, 2]) 2, Sys (SysRead 3 16384) 0,
               Sys (SysClose 3) 0, Sys (SysFsync 4) 0, Sys (SysClose 4) 0,
               Sys (SysRemove ''a'') (- 1), Complete (Some 7) None True]\<rparr>"
  by (simp add: Move_def Copy_fd_def copyByFdError_def moveError_def copy_loop.simps
        doWrite.simps BUFFER_SIZE_def remove_source_fails_def plain_call_def
        resp_defs call_defs cb_defs arg_defs Let_def
        split del: if_split cong: prod.case_cong_weak bind_weak_cong)

text \<open>
  C5, on a run: the copy across devices succeeds, and the one \<open>remove\<close> of the run is on
  the source.
\<close>

theorem cross_device_move_removes_source_iff_copied_witness:
  "Move move_across False plain_call start = Some move_across_end
   \<and> cross_device move_across (clock start)
   \<and> (\<exists>c. removes (trace move_across_end) =
              [(if failed_io (trace move_across_end) then Destination plain_args
                else Source plain_args, c)])
   \<and> (Source plain_args \<in> fst ` set (removes (trace move_across_end)))
       = (\<not> failed_io (trace move_across_end))"
proof -
  have tr: "trace move_across_end = trace start @ trace move_across_end"
    by (simp add: start_def)
  have x: "cross_device move_across (clock start)"
    by (simp add: cross_device_def move_across_def resp_defs)
  have d: "Source plain_args \<noteq> Destination plain_args"
    by (simp add: plain_args_def)
  from cross_device_move_removes_source_iff_copied [OF run_move_across plain_call_args tr x]
       run_move_across x d
  show ?thesis by simp
qed

text \<open>
  C6. As stated the claim fails: \<open>fstat\<close> reports the size 0, three bytes are read and
  copied, and the \<open>done\<close> values delivered are 3 and then 0.
\<close>

theorem Copy_progress_decreases_when_size_is_short:
  "Copy proc_file False progress_call start =
     Some \<lparr>clock = 9, errno = 0,
            trace =
              [Sys (SysOpen ''a'' [O_RDONLY, O_BINARY] None) 3, Sys (SysFstat 3) 0,
               Sys (SysOpen ''b'' [O_WRONLY, O_CREAT, O_TRUNC, O_BINARY] (Some 292)) 4,
               Sys (SysRead 3 16384) 3, Sys (SysWrite 4 [1, 2, 3]) 3, Progress (Some 6) 3 0,
               Sys (SysRead 3 16384) 0, Progress (Some 6) 0 0,
               Sys (SysClose 3) 0, Sys (SysFsync 4) 0, Sys (SysClose 4) 0,
               Complete (Some 7) None True]\<rparr>"
  by (simp add: Copy_def Copy_fd_def copyByFdError_def copyByPathError_def copy_loop.simps
        doWrite.simps BUFFER_SIZE_def proc_file_def progress_call_def
        resp_defs call_defs cb_defs arg_defs Let_def
        split del: if_split cong: prod.case_cong_weak bind_weak_cong)

text \<open>
  C6, on a run: five bytes are reported and five are read; the \<open>done\<close> values are 3, 5, 5.
\<close>

theorem progress_nondecreasing_when_size_covers_reads_witness:
  "Copy copy_tiny False progress_call start = Some copy_tiny_end
   \<and> well_formed progress_call
   \<and> st_size (r_stat (copy_tiny (Suc (clock start)))) = 5
   \<and> progress_of (trace copy_tiny_end) = [(3, 5), (5, 5), (5, 5)]
   \<and> last (progress_of (trace copy_tiny_end)) = (5, 5)
   \<and> sum_list (reads_of (trace copy_tiny_end)) \<le> 5
   \<and> sorted (map fst (progress_of (trace copy_tiny_end)))"
proof -
  have tr: "trace copy_tiny_end = trace start @ trace copy_tiny_end"
    by (simp add: start_def)
  have wf: "well_formed progress_call" and ch: "3 < length progress_call"
    by (simp_all add: well_formed_def progress_call_def arg_at_def)
  have ok: "(None, True) \<in> snd ` set (completions (trace copy_tiny_end))"
    by (simp add: copy_tiny_end_def)
  have z: "5 = st_size (r_stat (copy_tiny (Suc (clock start))))"
    by (simp add: copy_tiny_def resp_defs)
  have p: "progress_of (trace copy_tiny_end) = [(3, 5), (5, 5), (5, 5)]"
    and r: "sum_list (reads_of (trace copy_tiny_end)) \<le> 5"
    by (simp_all add: copy_tiny_end_def)
  from progress_nondecreasing_when_size_covers_reads
         [OF disjI1 [OF refl] run_copy_tiny tr wf ch ok z]
       run_copy_tiny wf z p r
  show ?thesis by simp
qed

lemma script_all: "(\<And>r. r \<in> set rs \<Longrightarrow> P r) \<Longrightarrow> P d \<Longrightarrow> P (script rs d k)"
  by (simp add: script_def)

lemma run_steady_copy: "Copy steady_copy False progress_call start = Some copy_tiny_end"
  by (simp add: Copy_def Copy_fd_def copyByFdError_def copyByPathError_def copy_loop.simps
        doWrite.simps BUFFER_SIZE_def steady_copy_def copy_tiny_end_def progress_call_def
        resp_defs call_defs cb_defs arg_defs Let_def
        split del: if_split cong: prod.case_cong_weak bind_weak_cong)

text \<open>
  C9, on a run: the conditions for returning hold, the run returns, descriptors 3 and 4
  are opened and closed, and the completion comes last.
\<close>

theorem descriptors_closed_once_then_one_completion_witness:
  "well_formed progress_call
   \<and> (\<exists>s'. Copy steady_copy False progress_call start = Some s')
   \<and> Copy steady_copy False progress_call start = Some copy_tiny_end
   \<and> (\<exists>pre g t b.
           trace copy_tiny_end = trace start @ pre @ [Complete (Some g) t b]
         \<and> Cast (arg_at progress_call (if 3 < length progress_call then 3 else 2)) = Some g
         \<and> completions pre = []
         \<and> closed pre = opened pre)"
proof -
  have wf: "well_formed progress_call"
    by (simp add: well_formed_def progress_call_def arg_at_def)
  have w: "r_ok (steady_copy k) \<longrightarrow> 0 < r_val (steady_copy k)" for k
    unfolding steady_copy_def
    by (rule script_all [where P = "\<lambda>r. r_ok r \<longrightarrow> 0 < r_val r"])
       (auto simp: yield_def ans_def)
  have e: "\<exists>N. \<forall>k\<ge>N. r_ok (steady_copy k) \<longrightarrow> r_data (steady_copy k) = []"
    by (intro exI [of _ 7]) (simp add: steady_copy_def script_def yield_def ans_def)
  from descriptors_closed_once_then_one_completion
         [OF disjI1 [OF refl] wf, of steady_copy False start]
       run_steady_copy wf w e
  show ?thesis by simp
qed

section \<open>The text of a failure\<close>

lemma run_close_fails: "Copy close_fails False plain_call start = Some close_fails_end"
  by (simp add: Copy_def Copy_fd_def copyByFdError_def copyByPathError_def copy_loop.simps
        doWrite.simps BUFFER_SIZE_def close_fails_def close_fails_end_def plain_call_def
        resp_defs call_defs cb_defs arg_defs Let_def
        split del: if_split cong: prod.case_cong_weak bind_weak_cong)

lemma run_move_read_fails:
  "Move move_read_fails False plain_call start = Some move_read_fails_end"
  by (simp add: Move_def Copy_fd_def copyByFdError_def moveError_def copy_loop.simps
        doWrite.simps BUFFER_SIZE_def move_read_fails_def move_read_fails_end_def
        plain_call_def resp_defs call_defs cb_defs arg_defs Let_def
        split del: if_split cong: prod.case_cong_weak bind_weak_cong)

lemma run_unreadable:
  "Copy unreadable_source False plain_call start =
     Some \<lparr>clock = 2, errno = 2,
            trace =
              [Sys (SysOpen ''a'' [O_RDONLY, O_BINARY] None) (- 1),
               Sys (SysRemove ''b'') (- 1),
               Complete (Some 7) (Some (strerror 2)) False]\<rparr>"
  "Move unreadable_source False plain_call start =
     Some \<lparr>clock = 2, errno = 2,
            trace =
              [Sys (SysOpen ''a'' [O_RDONLY, O_BINARY] None) (- 1),
               Sys (SysRemove ''b'') (- 1),
               Complete (Some 7) (Some (strerror 2)) False]\<rparr>"
  by (simp_all add: Copy_def Move_def copyByPathError_def moveError_def unreadable_source_def
        plain_call_def resp_defs call_defs cb_defs arg_defs Let_def
        split del: if_split cong: prod.case_cong_weak bind_weak_cong)

lemma run_directory:
  "Copy directory_in_the_way False plain_call start =
     Some \<lparr>clock = 2, errno = 21,
            trace =
              [Sys (SysOpen ''a'' [O_RDONLY, O_BINARY] None) (- 1),
               Sys (SysRemove ''b'') 0,
               Complete (Some 7) (Some (strerror 21)) False]\<rparr>"
  "Move directory_in_the_way False plain_call start =
     Some \<lparr>clock = 2, errno = 21,
            trace =
              [Sys (SysOpen ''a'' [O_RDONLY, O_BINARY] None) (- 1),
               Sys (SysRemove ''b'') 0,
               Complete (Some 7) (Some (strerror 21)) False]\<rparr>"
  by (simp_all add: Copy_def Move_def copyByPathError_def moveError_def directory_in_the_way_def
        plain_call_def resp_defs call_defs cb_defs arg_defs Let_def
        split del: if_split cong: prod.case_cong_weak bind_weak_cong)

lemma failed_call_errors:
  "r_errno (unreadable_source 0) = 13" "r_errno (directory_in_the_way 0) = 2"
  "r_errno (close_fails 4) = 28" "r_errno (move_read_fails 4) = 5"
  by (simp_all add: unreadable_source_def directory_in_the_way_def close_fails_def 
        move_read_fails_def script_def resp_defs)

text \<open>
  C10. In every run of \<open>Copy\<close> or \<open>Move\<close> that delivers a failure with the text \<open>t\<close>,
  whichever exit it takes (a failed \<open>open\<close> or \<open>fstat\<close> of either function, a failed
  \<open>read\<close> or \<open>write\<close> of the loop): the events end with the call that returned \<open>-1\<close>,
  the call number \<open>k\<close>, then \<open>close\<close> on each descriptor opened so far, then \<open>remove\<close>
  on the destination, then the completion; and \<open>t\<close> is the text of \<open>errno\<close> as these
  cleanup calls leave it, starting from the error of call \<open>k\<close>: a cleanup call that fails
  overwrites it, and so does one that succeeds and changes it. So the text can be the one
  of a cleanup call. In the runs given, \<open>open\<close> of the source fails with 13 and \<open>remove\<close>
  with 2, and \<open>Copy\<close> and \<open>Move\<close> deliver the text of 2; \<open>open\<close> fails with 2,
  \<open>remove\<close> returns 0 on an empty directory and leaves 21, and the text is the one of
  21; \<open>write\<close> fails with 28, \<open>close\<close> of the destination with 5, and the text is the
  one of 5.
\<close>

theorem error_text_is_errno_after_cleanup:
  assumes f: "f = Copy \<or> f = Move"
      and run: "f os junk incoming s = Some s'"
      and tr: "trace s' = trace s @ evs"
      and args: "Args_ctor junk incoming s = (args, s0)"
      and fails: "(g, Some t, False) \<in> set (completions evs)"
  shows "(\<exists>pre c rs r k.
           evs = pre @ Sys c (- 1) # closes (opened pre) rs
                   @ [Sys (SysRemove (Destination args)) r,
                      Complete (ResultCallback args) (Some t) False]
         \<and> cause c \<and> completions pre = [] \<and> closed pre = [] \<and> removes pre = []
         \<and> length rs = length (opened pre)
         \<and> clock s' = k + length rs + 2 \<and> \<not> r_ok (os k)
         \<and> errno s' = errno_after os (k + 1) (length rs + 1) (r_errno (os k))
         \<and> t = strerror (errno s'))
   \<and> Copy unreadable_source False plain_call start =
     Some \<lparr>clock = 2, errno = 2,
            trace =
              [Sys (SysOpen ''a'' [O_RDONLY, O_BINARY] None) (- 1),
               Sys (SysRemove ''b'') (- 1),
               Complete (Some 7) (Some (strerror 2)) False]\<rparr>
   \<and> Move unreadable_source False plain_call start =
     Some \<lparr>clock = 2, errno = 2,
            trace =
              [Sys (SysOpen ''a'' [O_RDONLY, O_BINARY] None) (- 1),
               Sys (SysRemove ''b'') (- 1),
               Complete (Some 7) (Some (strerror 2)) False]\<rparr>
   \<and> r_errno (unreadable_source 0) = 13
   \<and> Copy directory_in_the_way False plain_call start =
     Some \<lparr>clock = 2, errno = 21,
            trace =
              [Sys (SysOpen ''a'' [O_RDONLY, O_BINARY] None) (- 1),
               Sys (SysRemove ''b'') 0,
               Complete (Some 7) (Some (strerror 21)) False]\<rparr>
   \<and> r_errno (directory_in_the_way 0) = 2
   \<and> Copy close_fails False plain_call start =
     Some \<lparr>clock = 8, errno = 5,
            trace =
              [Sys (SysOpen ''a'' [O_RDONLY, O_BINARY] None) 3, Sys (SysFstat 3) 0,
               Sys (SysOpen ''b'' [O_WRONLY, O_CREAT, O_TRUNC, O_BINARY] (Some 420)) 4,
               Sys (SysRead 3 16384) 5, Sys (SysWrite 4 [1, 2, 3, 4, 5]) (- 1),
               Sys (SysClose 3) 0, Sys (SysClose 4) (- 1), Sys (SysRemove ''b'') 0,
               Complete (Some 7) (Some (strerror 5)) False]\<rparr>
   \<and> r_errno (close_fails 4) = 28"
proof (intro conjI)
  show "\<exists>pre c rs r k.
           evs = pre @ Sys c (- 1) # closes (opened pre) rs
                   @ [Sys (SysRemove (Destination args)) r,
                      Complete (ResultCallback args) (Some t) False]
         \<and> cause c \<and> completions pre = [] \<and> closed pre = [] \<and> removes pre = []
         \<and> length rs = length (opened pre)
         \<and> clock s' = k + length rs + 2 \<and> \<not> r_ok (os k)
         \<and> errno s' = errno_after os (k + 1) (length rs + 1) (r_errno (os k))
         \<and> t = strerror (errno s')"
    using f run tr args fails by (rule failure_run_shape)
  show "Copy close_fails False plain_call start =
     Some \<lparr>clock = 8, errno = 5,
            trace =
              [Sys (SysOpen ''a'' [O_RDONLY, O_BINARY] None) 3, Sys (SysFstat 3) 0,
               Sys (SysOpen ''b'' [O_WRONLY, O_CREAT, O_TRUNC, O_BINARY] (Some 420)) 4,
               Sys (SysRead 3 16384) 5, Sys (SysWrite 4 [1, 2, 3, 4, 5]) (- 1),
               Sys (SysClose 3) 0, Sys (SysClose 4) (- 1), Sys (SysRemove ''b'') 0,
               Complete (Some 7) (Some (strerror 5)) False]\<rparr>"
    using run_close_fails by (simp add: close_fails_end_def)
qed (simp_all add: run_unreadable run_directory failed_call_errors)

text \<open>
  C10, on two runs through the loop: a \<open>Move\<close> across devices whose \<open>read\<close> fails with
  5 and whose \<open>remove\<close> fails with 13, and a \<open>Copy\<close> whose \<open>write\<close> fails with 28 and
  whose second \<open>close\<close> fails with 5.
\<close>

theorem error_text_is_errno_after_cleanup_witness:
  "Move move_read_fails False plain_call start = Some move_read_fails_end
   \<and> Args_ctor False plain_call start = (plain_args, start)
   \<and> (Some 7, Some (strerror 13), False) \<in> set (completions (trace move_read_fails_end))
   \<and> r_errno (move_read_fails 4) = 5
   \<and> (\<exists>pre c rs r k.
           trace move_read_fails_end
             = pre @ Sys c (- 1) # closes (opened pre) rs
                   @ [Sys (SysRemove (Destination plain_args)) r,
                      Complete (ResultCallback plain_args) (Some (strerror 13)) False]
         \<and> cause c \<and> completions pre = [] \<and> closed pre = [] \<and> removes pre = []
         \<and> length rs = length (opened pre)
         \<and> clock move_read_fails_end = k + length rs + 2 \<and> \<not> r_ok (move_read_fails k)
         \<and> errno move_read_fails_end
             = errno_after move_read_fails (k + 1) (length rs + 1) (r_errno (move_read_fails k))
         \<and> strerror 13 = strerror (errno move_read_fails_end))
   \<and> Copy close_fails False plain_call start = Some close_fails_end
   \<and> (Some 7, Some (strerror 5), False) \<in> set (completions (trace close_fails_end))
   \<and> (\<exists>pre c rs r k.
           trace close_fails_end
             = pre @ Sys c (- 1) # closes (opened pre) rs
                   @ [Sys (SysRemove (Destination plain_args)) r,
                      Complete (ResultCallback plain_args) (Some (strerror 5)) False]
         \<and> cause c \<and> completions pre = [] \<and> closed pre = [] \<and> removes pre = []
         \<and> length rs = length (opened pre)
         \<and> clock close_fails_end = k + length rs + 2 \<and> \<not> r_ok (close_fails k)
         \<and> errno close_fails_end
             = errno_after close_fails (k + 1) (length rs + 1) (r_errno (close_fails k))
         \<and> strerror 5 = strerror (errno close_fails_end))"
proof -
  have m: "Move = Copy \<or> Move = Move" and c: "Copy = Copy \<or> Copy = Move" by simp_all
  have tm: "trace move_read_fails_end = trace start @ trace move_read_fails_end"
    and tc: "trace close_fails_end = trace start @ trace close_fails_end"
    by (simp_all add: start_def)
  have fm: "(Some 7, Some (strerror 13), False) \<in> set (completions (trace move_read_fails_end))"
    by (simp add: move_read_fails_end_def)
  have fc: "(Some 7, Some (strerror 5), False) \<in> set (completions (trace close_fails_end))"
    by (simp add: close_fails_end_def)
  note a = plain_call_args
  from error_text_is_errno_after_cleanup [OF m run_move_read_fails tm a fm, THEN conjunct1]
       error_text_is_errno_after_cleanup [OF c run_close_fails tc a fc, THEN conjunct1]
       run_move_read_fails run_close_fails a fm fc failed_call_errors(4)
  show ?thesis by (intro conjI)
qed

end
